theory Spec2Isabelle
  imports Main "HOL-Library.Word" "HOL-Library.Multiset"
begin

unbundle bit_operations_syntax

section \<open>The PNG loader of bk_png.h\<close>

text \<open>
  A shallow embedding of \<^verbatim>\<open>src/bk_png.h\<close>. Conventions:
  \<^item> \<^verbatim>\<open>unsigned char\<close> is \<open>8 word\<close>, \<^verbatim>\<open>uint32_t\<close> is \<open>32 word\<close>; their arithmetic wraps
    as in C. Where the source multiplies \<^verbatim>\<open>uint32_t\<close> values the model multiplies words.
  \<^item> \<^verbatim>\<open>int\<close> is HOL \<open>int\<close>; a \<^verbatim>\<open>uint32_t\<close> passed for an \<^verbatim>\<open>int\<close> parameter is read as two's
    complement (\<open>sint\<close>). Where the source computes a product or a sum of \<^verbatim>\<open>int\<close>s that
    can leave the range of a 32-bit \<^verbatim>\<open>int\<close> (the stride and the row offset of
    \<^verbatim>\<open>bkp_filter_decode\<close>; the loop counters, sizes and offsets of \<^verbatim>\<open>bkp_decode_adam7\<close>),
    the overflow, which C leaves undefined, has the outcome \<open>Undefined\<close>.
    \<^verbatim>\<open>size_t\<close> is \<open>nat\<close> (64 bits are never exhausted by 32-bit operands).
  \<^item> The file is the list of the bytes that remain to be read; \<^verbatim>\<open>fread\<close> takes a prefix.
  \<^item> \<^verbatim>\<open>malloc\<close> and \<^verbatim>\<open>realloc\<close> are taken to succeed (also for size 0, where they return
    a pointer that is not \<^verbatim>\<open>NULL\<close>). A buffer is the list of its bytes.
  \<^item> A run that reads or writes outside a buffer, uses a freed buffer, or whose result
    depends on bytes of a \<^verbatim>\<open>malloc\<close>ed buffer that were never written has the outcome
    \<open>Undefined\<close>.
\<close>

type_synonym byte = "8 word"
type_synonym u32 = "32 word"

datatype 'a result = Returns 'a | Undefined

text \<open>The range of \<^verbatim>\<open>int\<close>.\<close>

abbreviation INT_MIN :: int where "INT_MIN \<equiv> - 2147483648"

abbreviation INT_MAX :: int where "INT_MAX \<equiv> 2147483647"

subsection \<open>Data\<close>

record bkp_ihdr =
  width :: u32
  height :: u32
  bit_depth :: byte
  color_type :: byte
  compression_method :: byte
  filter_method :: byte
  interlace_method :: byte

text \<open>\<^verbatim>\<open>unsigned char palette[256][4]\<close>: 256 entries of four bytes; \<open>size_pal\<close> (\<^verbatim>\<open>size\<close>) is the count of
  entries the last PLTE chunk declared.\<close>

record bkp_palette =
  palette :: "byte list list"
  size_pal :: nat

text \<open>\<^verbatim>\<open>bkp_buffer\<close>: the \<^verbatim>\<open>data\<close> pointer is \<^verbatim>\<open>NULL\<close>, or points to a live allocation holding
  \<^verbatim>\<open>size\<close> bytes, or still points to an allocation that \<^verbatim>\<open>free\<close> has released.\<close>

datatype bkp_buffer = NullBuf | Buf "byte list" | FreedBuf

text \<open>What holds of the palette throughout a call: 256 entries of four bytes, and alpha
  255 in the entries below \<open>size_pal\<close> (PLTE stored them).\<close>

definition wf_palette :: "bkp_palette \<Rightarrow> bool" where
  "wf_palette pal \<longleftrightarrow>
     length (palette pal) = 256 \<and> (\<forall>e \<in> set (palette pal). length e = 4)
     \<and> (\<forall>k < size_pal pal. k < 256 \<and> palette pal ! k ! 3 = 255)"

definition BK_PNG_GRAY :: byte where "BK_PNG_GRAY = 0"
definition BK_PNG_GRAY_ALPHA :: byte where "BK_PNG_GRAY_ALPHA = 4"
definition BK_PNG_RGB :: byte where "BK_PNG_RGB = 2"
definition BK_PNG_INDEXED :: byte where "BK_PNG_INDEXED = 3"
definition BK_PNG_RGBA :: byte where "BK_PNG_RGBA = 6"

text \<open>The chunk type names, as the ASCII bytes of the C string literals.\<close>

definition type_IHDR :: "byte list" where "type_IHDR = [0x49, 0x48, 0x44, 0x52]"
definition type_PLTE :: "byte list" where "type_PLTE = [0x50, 0x4C, 0x54, 0x45]"
definition type_IDAT :: "byte list" where "type_IDAT = [0x49, 0x44, 0x41, 0x54]"
definition type_IEND :: "byte list" where "type_IEND = [0x49, 0x45, 0x4E, 0x44]"
definition type_gAMA :: "byte list" where "type_gAMA = [0x67, 0x41, 0x4D, 0x41]"

subsection \<open>CRC-32\<close>

text \<open>One round of the table construction: \<^verbatim>\<open>if (rem & 1) rem = (rem >> 1) ^ 0xEDB88320; else
  rem >>= 1;\<close>. The table entry for \<open>i\<close> is eight rounds from \<open>i\<close>.\<close>

definition crc_round :: "u32 \<Rightarrow> u32" where
  "crc_round rem = (if rem AND 1 \<noteq> 0 then drop_bit 1 rem XOR 0xEDB88320 else drop_bit 1 rem)"

definition crc_table :: "u32 \<Rightarrow> u32" where
  "crc_table i = (crc_round ^^ 8) i"

text \<open>The loop body \<^verbatim>\<open>crc = (crc >> 8) ^ table[(crc ^ buf[i]) & 0xFF]\<close>.\<close>

definition crc_update :: "u32 \<Rightarrow> byte \<Rightarrow> u32" where
  "crc_update crc b = drop_bit 8 crc XOR crc_table ((crc XOR ucast b) AND 0xFF)"

definition bkp_crc32 :: "u32 \<Rightarrow> byte list \<Rightarrow> u32" where
  "bkp_crc32 crc buf = NOT (foldl crc_update (NOT crc) buf)"

subsection \<open>Reading the file\<close>

text \<open>\<^verbatim>\<open>fread(buf, 1, n, f) != n\<close> is a failure; otherwise \<open>n\<close> bytes are taken.\<close>

definition fread :: "nat \<Rightarrow> byte list \<Rightarrow> (byte list \<times> byte list) option" where
  "fread n f = (if length f < n then None else Some (take n f, drop n f))"

definition be32 :: "byte list \<Rightarrow> u32" where
  "be32 b = push_bit 24 (ucast (b ! 0)) OR push_bit 16 (ucast (b ! 1))
            OR push_bit 8 (ucast (b ! 2)) OR ucast (b ! 3)"

definition bkp_read_be32 :: "byte list \<Rightarrow> (u32 \<times> byte list) option" where
  "bkp_read_be32 f = (case fread 4 f of None \<Rightarrow> None | Some (b, f') \<Rightarrow> Some (be32 b, f'))"

definition bkp_read_chunk_header :: "byte list \<Rightarrow> (u32 \<times> byte list \<times> byte list) option" where
  "bkp_read_chunk_header f =
     (case bkp_read_be32 f of None \<Rightarrow> None
      | Some (len, f1) \<Rightarrow>
          (case fread 4 f1 of None \<Rightarrow> None
           | Some (type, f2) \<Rightarrow> Some (len, type, f2)))"

definition bkp_read_ihdr :: "byte list \<Rightarrow> (bkp_ihdr \<times> byte list) option" where
  "bkp_read_ihdr f =
     (case bkp_read_chunk_header f of None \<Rightarrow> None
      | Some (len, type, f1) \<Rightarrow>
          if type \<noteq> type_IHDR then None
          else if len \<noteq> 13 then None
          else (case fread 13 f1 of None \<Rightarrow> None
           | Some (data, f2) \<Rightarrow>
              (case bkp_read_be32 f2 of None \<Rightarrow> None
               | Some (crc_read, f3) \<Rightarrow>
                  if bkp_crc32 0 (type @ data) \<noteq> crc_read then None
                  else
                    let ihdr = \<lparr> width = be32 (take 4 data),
                                 height = be32 (take 4 (drop 4 data)),
                                 bit_depth = data ! 8,
                                 color_type = data ! 9,
                                 compression_method = data ! 10,
                                 filter_method = data ! 11,
                                 interlace_method = data ! 12 \<rparr>
                    in if bit_depth ihdr \<noteq> 8 then None
                       else if compression_method ihdr \<noteq> 0 then None
                       else if filter_method ihdr \<noteq> 0 then None
                       else if interlace_method ihdr \<noteq> 0 then None
                       else Some (ihdr, f3))))"

text \<open>The loop of \<^verbatim>\<open>bkp_read_plte\<close> stores entry \<open>i\<close> for \<open>i < n\<close> and leaves the others.\<close>

definition plte_store :: "byte list \<Rightarrow> nat \<Rightarrow> byte list list \<Rightarrow> byte list list" where
  "plte_store data n pal =
     fold (\<lambda>i p. p[i := [data ! (i * 3 + 0), data ! (i * 3 + 1), data ! (i * 3 + 2), 255]])
       [0..<n] pal"

definition bkp_read_plte :: "byte list \<Rightarrow> u32 \<Rightarrow> bkp_palette \<Rightarrow> (bkp_palette \<times> byte list) option"
  where
  "bkp_read_plte f len pal =
     (if unat len mod 3 \<noteq> 0 then None
      else let n = unat len div 3 in
        if n > 256 then None
        else (case fread (unat len) f of None \<Rightarrow> None
         | Some (data, f1) \<Rightarrow>
            (case bkp_read_be32 f1 of None \<Rightarrow> None
             | Some (crc_read, f2) \<Rightarrow>
                if bkp_crc32 0 (type_PLTE @ data) \<noteq> crc_read then None
                else Some (\<lparr> palette = plte_store data n (palette pal), size_pal = n \<rparr>, f2))))"

text \<open>\<^verbatim>\<open>bkp_collect_idat_data\<close>: every failure path calls \<^verbatim>\<open>free(idat_buf->data)\<close> and leaves
  the pointer as it is, so a buffer that held data is left dangling. The result is the
  buffer and, on success, the rest of the file.\<close>

definition free_keep_pointer :: "bkp_buffer \<Rightarrow> bkp_buffer" where
  "free_keep_pointer b = (case b of NullBuf \<Rightarrow> NullBuf | Buf _ \<Rightarrow> FreedBuf | FreedBuf \<Rightarrow> FreedBuf)"

definition realloc_append :: "bkp_buffer \<Rightarrow> byte list \<Rightarrow> bkp_buffer" where
  "realloc_append b chunk_data =
     (case b of NullBuf \<Rightarrow> Buf chunk_data | Buf d \<Rightarrow> Buf (d @ chunk_data) | FreedBuf \<Rightarrow> FreedBuf)"

definition bkp_collect_idat_data ::
  "byte list \<Rightarrow> bkp_buffer \<Rightarrow> u32 \<Rightarrow> bkp_buffer \<times> byte list option" where
  "bkp_collect_idat_data f idat_buf len =
     (case fread (unat len) f of None \<Rightarrow> (free_keep_pointer idat_buf, None)
      | Some (chunk_data, f1) \<Rightarrow>
         (case bkp_read_be32 f1 of None \<Rightarrow> (free_keep_pointer idat_buf, None)
          | Some (crc_read, f2) \<Rightarrow>
             if bkp_crc32 0 (type_IDAT @ chunk_data) \<noteq> crc_read
             then (free_keep_pointer idat_buf, None)
             else (realloc_append idat_buf chunk_data, Some f2)))"

text \<open>\<^verbatim>\<open>bkp_read_gama\<close>: the model keeps the 32-bit integer \<open>gamma_int\<close>; the source stores
  \<^verbatim>\<open>gamma_int / 100000.0f\<close>, which is positive exactly when \<open>gamma_int\<close> is not 0.\<close>

definition bkp_read_gama :: "byte list \<Rightarrow> u32 \<Rightarrow> (u32 \<times> byte list) option" where
  "bkp_read_gama f len =
     (if len \<noteq> 4 then None
      else (case fread 4 f of None \<Rightarrow> None
       | Some (data, f1) \<Rightarrow>
          (case bkp_read_be32 f1 of None \<Rightarrow> None
           | Some (crc_read, f2) \<Rightarrow>
              if bkp_crc32 0 (type_gAMA @ data) \<noteq> crc_read then None
              else Some (be32 data, f2))))"

text \<open>\<^verbatim>\<open>bkp_skip_and_verify_chunk\<close>: a short read goes to \<^verbatim>\<open>fail\<close>, which frees the IDAT
  buffer and sets its pointer to \<^verbatim>\<open>NULL\<close>; a CRC mismatch returns 0 past that label and
  leaves the buffer alone.\<close>

definition free_and_null :: "bkp_buffer \<Rightarrow> bkp_buffer" where
  "free_and_null b = NullBuf"

definition bkp_skip_and_verify_chunk ::
  "byte list \<Rightarrow> u32 \<Rightarrow> byte list \<Rightarrow> bkp_buffer \<Rightarrow> bkp_buffer \<times> byte list option" where
  "bkp_skip_and_verify_chunk f len type idat_buf =
     (case fread (unat len) f of None \<Rightarrow> (free_and_null idat_buf, None)
      | Some (chunk_data, f1) \<Rightarrow>
         (case bkp_read_be32 f1 of None \<Rightarrow> (free_and_null idat_buf, None)
          | Some (crc_read, f2) \<Rightarrow>
             if bkp_crc32 0 (type @ chunk_data) = crc_read then (idat_buf, Some f2)
             else (idat_buf, None)))"

subsection \<open>The Paeth predictor\<close>

text \<open>The result type is \<^verbatim>\<open>unsigned char\<close>: the chosen \<^verbatim>\<open>int\<close> is reduced modulo 256.\<close>

definition bkp_paeth_predictor :: "int \<Rightarrow> int \<Rightarrow> int \<Rightarrow> byte" where
  "bkp_paeth_predictor a b c =
     (let p = a + b - c;
          pa = \<bar>p - a\<bar>;
          pb = \<bar>p - b\<bar>;
          pc = \<bar>p - c\<bar>
      in if pa \<le> pb \<and> pa \<le> pc then word_of_int a
         else if pb \<le> pc then word_of_int b
         else word_of_int c)"

subsection \<open>Filter reconstruction\<close>

text \<open>The predecessors of byte \<open>i\<close> of a scanline: \<open>out_row\<close> holds the bytes of the current
  row reconstructed so far, \<open>prev_row\<close> is \<open>None\<close> for the \<^verbatim>\<open>NULL\<close> pointer of the first row.\<close>

definition left_byte :: "nat \<Rightarrow> byte list \<Rightarrow> nat \<Rightarrow> byte" where
  "left_byte bpp out_row i = (if i \<ge> bpp then out_row ! (i - bpp) else 0)"

definition up_byte :: "byte list option \<Rightarrow> nat \<Rightarrow> byte" where
  "up_byte prev_row i = (case prev_row of None \<Rightarrow> 0 | Some p \<Rightarrow> p ! i)"

definition up_left_byte :: "nat \<Rightarrow> byte list option \<Rightarrow> nat \<Rightarrow> byte" where
  "up_left_byte bpp prev_row i =
     (case prev_row of None \<Rightarrow> 0 | Some p \<Rightarrow> if i \<ge> bpp then p ! (i - bpp) else 0)"

text \<open>What the \<^verbatim>\<open>switch\<close> adds to \<^verbatim>\<open>curr_ptr[i]\<close>: \<^verbatim>\<open>left\<close> (1), \<^verbatim>\<open>up\<close> (2),
  \<^verbatim>\<open>(left + up) >> 1\<close> computed in \<^verbatim>\<open>int\<close> (3), the Paeth predictor (4); nothing for the
  \<^verbatim>\<open>memcpy\<close> of filter 0. The sum is stored in an \<^verbatim>\<open>unsigned char\<close>.\<close>

definition predictor :: "byte \<Rightarrow> nat \<Rightarrow> byte list option \<Rightarrow> byte list \<Rightarrow> nat \<Rightarrow> byte" where
  "predictor ft bpp prev_row out_row i =
     (let left = left_byte bpp out_row i;
          up = up_byte prev_row i;
          up_left = up_left_byte bpp prev_row i
      in if ft = 1 then left
         else if ft = 2 then up
         else if ft = 3 then word_of_int ((uint left + uint up) div 2)
         else if ft = 4 then bkp_paeth_predictor (uint left) (uint up) (uint up_left)
         else 0)"

fun recon_loop :: "byte \<Rightarrow> nat \<Rightarrow> byte list option \<Rightarrow> byte list \<Rightarrow> byte list \<Rightarrow> byte list" where
  "recon_loop ft bpp prev_row out_row [] = out_row"
| "recon_loop ft bpp prev_row out_row (x # cur) =
     recon_loop ft bpp prev_row
       (out_row @ [x + predictor ft bpp prev_row out_row (length out_row)]) cur"

definition reconstruct_row :: "byte \<Rightarrow> nat \<Rightarrow> byte list option \<Rightarrow> byte list \<Rightarrow> byte list" where
  "reconstruct_row ft bpp prev_row cur =
     (if ft = 0 then cur else recon_loop ft bpp prev_row [] cur)"

text \<open>
  The row loop of \<^verbatim>\<open>bkp_filter_decode\<close>. \<open>pos\<close> is the offset of \<^verbatim>\<open>curr_ptr\<close> in \<open>data\<close>,
  \<open>out\<close> the bytes stored so far (rows are stored one after the other from offset 0),
  \<open>cap\<close> the byte count of the caller's output buffer. The offset \<^verbatim>\<open>y * stride\<close> of a row
  in the output is a product of \<^verbatim>\<open>int\<close>s; it is the count of the bytes stored so far.
  With a negative \<open>stride\<close> the
  loops of filters 1 to 4 do not run and \<^verbatim>\<open>memcpy\<close> is asked for more bytes than exist
  (a row after the first is then reached only with stride -1, where \<^verbatim>\<open>y * stride\<close> is in
  range).
  The result is \<open>Returns None\<close> for \<^verbatim>\<open>return 0\<close>, and \<open>Returns (Some out)\<close> for \<^verbatim>\<open>return 1\<close>
  with the bytes stored in the output buffer.
\<close>

fun filter_rows ::
  "byte list \<Rightarrow> int \<Rightarrow> nat \<Rightarrow> nat \<Rightarrow> nat \<Rightarrow> int \<Rightarrow> byte list option \<Rightarrow> byte list
     \<Rightarrow> byte list option result" where
  "filter_rows data stride bpp cap 0 pos prev_row out = Returns (Some out)"
| "filter_rows data stride bpp cap (Suc rows) pos prev_row out =
     (if pos < 0 \<or> int (length data) \<le> pos then Undefined
      else if INT_MAX < int (length out) then Undefined
      else let ft = data ! nat pos in
        if 4 < ft then Returns None
        else if stride < 0 then
          (if ft = 0 then Undefined
           else filter_rows data stride bpp cap rows (pos + 1 + stride) (Some []) out)
        else if int (length data) < pos + 1 + stride \<or> int cap < int (length out) + stride
          then Undefined
        else let out_row = reconstruct_row ft bpp prev_row
                             (take (nat stride) (drop (nat pos + 1) data))
             in filter_rows data stride bpp cap rows (pos + 1 + stride) (Some out_row)
                  (out @ out_row))"

definition bkp_filter_decode ::
  "byte list \<Rightarrow> int \<Rightarrow> int \<Rightarrow> nat \<Rightarrow> nat \<Rightarrow> byte list option result" where
  "bkp_filter_decode data w h bpp cap =
     (let stride = w * int bpp in
      if stride < INT_MIN \<or> INT_MAX < stride then Undefined
      else filter_rows data stride bpp cap (nat h) 0 None [])"

subsection \<open>Palette expansion\<close>

text \<open>A \<^verbatim>\<open>malloc\<close>ed buffer: \<open>None\<close> marks a byte that has not been written.\<close>

definition write_bytes :: "byte option list \<Rightarrow> nat \<Rightarrow> byte list \<Rightarrow> byte option list result" where
  "write_bytes buf off bs =
     (if length buf < off + length bs then Undefined
      else Returns (take off buf @ map Some bs @ drop (off + length bs) buf))"

definition read_byte :: "byte option list \<Rightarrow> nat \<Rightarrow> byte result" where
  "read_byte buf i =
     (if length buf \<le> i then Undefined
      else case buf ! i of None \<Rightarrow> Undefined | Some v \<Rightarrow> Returns v)"

definition read_bytes :: "byte option list \<Rightarrow> nat \<Rightarrow> nat \<Rightarrow> byte list result" where
  "read_bytes buf off n =
     (if length buf < off + n \<or> None \<in> set (take n (drop off buf)) then Undefined
      else Returns (map the (take n (drop off buf))))"

text \<open>A counted loop whose body may leave the defined behaviour.\<close>

definition for_loop :: "nat \<Rightarrow> (nat \<Rightarrow> 's \<Rightarrow> 's result) \<Rightarrow> 's \<Rightarrow> 's result" where
  "for_loop n body s =
     fold (\<lambda>i r. case r of Undefined \<Rightarrow> Undefined | Returns s' \<Rightarrow> body i s') [0..<n] (Returns s)"

text \<open>\<^verbatim>\<open>bkp_expand_palette\<close>: \<open>i\<close> is a \<^verbatim>\<open>size_t\<close>, so \<^verbatim>\<open>i*4\<close> does not wrap.\<close>

definition bkp_expand_palette ::
  "byte option list \<Rightarrow> nat \<Rightarrow> bkp_palette \<Rightarrow> byte option list \<Rightarrow> byte option list result" where
  "bkp_expand_palette indexed n_pixels pal out =
     for_loop n_pixels
       (\<lambda>i out. case read_byte indexed i of Undefined \<Rightarrow> Undefined
          | Returns v \<Rightarrow>
              let idx = (if unat v \<ge> size_pal pal then 0 else unat v)
              in write_bytes out (i * 4) (take 4 (palette pal ! idx)))
       out"

subsection \<open>Adam7\<close>

definition ADAM7_PASSES :: "(int \<times> int \<times> int \<times> int) list" where
  "ADAM7_PASSES =
     [(0, 0, 8, 8), (4, 0, 8, 8), (0, 4, 4, 8), (2, 0, 4, 4), (0, 2, 2, 4), (1, 0, 2, 2),
      (0, 1, 1, 2)]"

text \<open>The values of \<open>x\<close> in \<^verbatim>\<open>for (x = start; x < stop; x += step)\<close>; every step of the
  table is positive.\<close>

function for_range :: "int \<Rightarrow> int \<Rightarrow> int \<Rightarrow> int list" where
  "for_range x stop step =
     (if x < stop \<and> 0 < step then x # for_range (x + step) stop step else [])"
  by pat_completeness auto
termination
  by (relation "measure (\<lambda>(x, stop, step). nat (stop - x))") auto

text \<open>Whether \<^verbatim>\<open>x += step\<close> leaves the range of \<^verbatim>\<open>int\<close> in some iteration of that loop.\<close>

function for_overflows :: "int \<Rightarrow> int \<Rightarrow> int \<Rightarrow> bool" where
  "for_overflows x stop step =
     (if x < stop \<and> 0 < step then INT_MAX < x + step \<or> for_overflows (x + step) stop step
      else False)"
  by pat_completeness auto
termination
  by (relation "measure (\<lambda>(x, stop, step). nat (stop - x))") auto

text \<open>The first loop over the passes counts \<^verbatim>\<open>pass_width\<close> and \<^verbatim>\<open>pass_height\<close> with two such
  loops and computes \<^verbatim>\<open>pass_width * bpp\<close>.\<close>

definition pass_sizes_overflow :: "int \<times> int \<times> int \<times> int \<Rightarrow> int \<Rightarrow> int \<Rightarrow> nat \<Rightarrow> bool" where
  "pass_sizes_overflow p w h bpp =
     (case p of (x0, y0, dx, dy) \<Rightarrow>
        for_overflows x0 w dx \<or> for_overflows y0 h dy \<or>
        INT_MAX < int (length (for_range x0 w dx) * bpp))"

text \<open>The pixels \<open>(x, y)\<close> that the scatter loop of one pass writes, in the order of the
  loop.\<close>

definition pass_positions :: "int \<times> int \<times> int \<times> int \<Rightarrow> int \<Rightarrow> int \<Rightarrow> (int \<times> int) list" where
  "pass_positions p w h =
     (case p of (x0, y0, dx, dy) \<Rightarrow>
        concat (map (\<lambda>y. map (\<lambda>x. (x, y)) (for_range x0 w dx)) (for_range y0 h dy)))"

fun scatter ::
  "int \<Rightarrow> nat \<Rightarrow> byte list \<Rightarrow> (int \<times> int) list \<Rightarrow> nat \<Rightarrow> byte option list
     \<Rightarrow> byte option list result" where
  "scatter w bpp filtered_pass [] idx out = Returns out"
| "scatter w bpp filtered_pass ((x, y) # ps) idx out =
     (if 0 < bpp \<and> INT_MAX < (y * w + x) * int bpp + (int bpp - 1) then Undefined
      else case write_bytes out (nat ((y * w + x) * int bpp))
                  (take bpp (drop (idx * bpp) filtered_pass)) of
             Undefined \<Rightarrow> Undefined
           | Returns out' \<Rightarrow> scatter w bpp filtered_pass ps (Suc idx) out')"

text \<open>One pass: \<open>pos\<close> is the offset of \<^verbatim>\<open>ptr\<close> in \<open>data\<close>. An empty pass is skipped.
  The rows of a pass are reconstructed as in \<^verbatim>\<open>bkp_filter_decode\<close>, into a buffer of
  exactly \<open>pw * ph * bpp\<close> bytes (a product of \<^verbatim>\<open>int\<close>s; the rows are addressed by
  pointer increments that stay inside the buffer), and then scattered. The result is
  the new offset and the output buffer, or \<open>None\<close> for \<^verbatim>\<open>return 0\<close>.\<close>

definition adam7_pass ::
  "byte list \<Rightarrow> int \<Rightarrow> int \<Rightarrow> nat \<Rightarrow> int \<times> int \<times> int \<times> int \<Rightarrow> int \<Rightarrow> byte option list
     \<Rightarrow> (int \<times> byte option list) option result" where
  "adam7_pass data w h bpp p pos out =
     (case p of (x0, y0, dx, dy) \<Rightarrow>
       let pw = length (for_range x0 w dx);
           ph = length (for_range y0 h dy)
       in if pw = 0 \<or> ph = 0 then Returns (Some (pos, out))
          else if INT_MAX < int (pw * ph) \<or> INT_MAX < int (pw * ph * bpp) then Undefined
          else
           (case filter_rows data (int (pw * bpp)) bpp (pw * ph * bpp) ph pos None [] of
              Undefined \<Rightarrow> Undefined
            | Returns None \<Rightarrow> Returns None
            | Returns (Some filtered_pass) \<Rightarrow>
                (case scatter w bpp filtered_pass (pass_positions p w h) 0 out of
                   Undefined \<Rightarrow> Undefined
                 | Returns out' \<Rightarrow>
                     Returns (Some (pos + int (ph * (1 + pw * bpp)), out')))))"

fun adam7_passes ::
  "byte list \<Rightarrow> int \<Rightarrow> int \<Rightarrow> nat \<Rightarrow> (int \<times> int \<times> int \<times> int) list \<Rightarrow> int \<Rightarrow> byte option list
     \<Rightarrow> byte option list option result" where
  "adam7_passes data w h bpp [] pos out = Returns (Some out)"
| "adam7_passes data w h bpp (p # ps) pos out =
     (case adam7_pass data w h bpp p pos out of
        Undefined \<Rightarrow> Undefined
      | Returns None \<Rightarrow> Returns None
      | Returns (Some (pos', out')) \<Rightarrow> adam7_passes data w h bpp ps pos' out')"

text \<open>The pass sizes are computed for all seven passes first. \<^verbatim>\<open>malloc(width * bpp)\<close> for
  the row buffer cannot succeed when the product is negative (it is converted to a
  \<^verbatim>\<open>size_t\<close> beyond any address space).\<close>

definition bkp_decode_adam7 ::
  "byte list \<Rightarrow> int \<Rightarrow> int \<Rightarrow> nat \<Rightarrow> byte option list \<Rightarrow> byte option list option result" where
  "bkp_decode_adam7 data w h bpp out =
     (if list_ex (\<lambda>p. pass_sizes_overflow p w h bpp) ADAM7_PASSES then Undefined
      else if w * int bpp < INT_MIN \<or> INT_MAX < w * int bpp then Undefined
      else if w * int bpp < 0 then Returns None
      else adam7_passes data w h bpp ADAM7_PASSES 0 out)"

subsection \<open>The chunk loop\<close>

text \<open>The local variables of \<^verbatim>\<open>bkp_load_png\<close> that the chunk loop updates.\<close>

record loader_vars =
  var_palette :: bkp_palette
  var_idat_buf :: bkp_buffer
  var_have_plte :: bool
  var_gamma :: u32

definition initial_vars :: loader_vars where
  "initial_vars =
     \<lparr> var_palette = \<lparr> palette = replicate 256 [0, 0, 0, 0], size_pal = 0 \<rparr>,
       var_idat_buf = NullBuf, var_have_plte = False, var_gamma = 0 \<rparr>"

datatype chunk_step = Continue loader_vars "byte list" | Break loader_vars

text \<open>One iteration of \<^verbatim>\<open>while (1)\<close>. \<^verbatim>\<open>strcmp\<close> against a four-letter literal is equality
  of the four type bytes.\<close>

definition chunk_iteration :: "loader_vars \<Rightarrow> byte list \<Rightarrow> chunk_step" where
  "chunk_iteration v f =
     (case bkp_read_chunk_header f of None \<Rightarrow> Break v
      | Some (len, type, f1) \<Rightarrow>
          if type = type_PLTE then
            (case bkp_read_plte f1 len (var_palette v) of None \<Rightarrow> Break v
             | Some (pal, f2) \<Rightarrow> Continue (v\<lparr>var_palette := pal, var_have_plte := True\<rparr>) f2)
          else if type = type_IDAT then
            (case bkp_collect_idat_data f1 (var_idat_buf v) len of
               (b, None) \<Rightarrow> Break (v\<lparr>var_idat_buf := b\<rparr>)
             | (b, Some f2) \<Rightarrow> Continue (v\<lparr>var_idat_buf := b\<rparr>) f2)
          else if type = type_IEND then Break v
          else if type = type_gAMA then
            (case bkp_read_gama f1 len of None \<Rightarrow> Break v
             | Some (g, f2) \<Rightarrow> Continue (v\<lparr>var_gamma := g\<rparr>) f2)
          else
            (case bkp_skip_and_verify_chunk f1 len type (var_idat_buf v) of
               (b, None) \<Rightarrow> Break (v\<lparr>var_idat_buf := b\<rparr>)
             | (b, Some f2) \<Rightarrow> Continue (v\<lparr>var_idat_buf := b\<rparr>) f2))"

function read_chunks :: "loader_vars \<Rightarrow> byte list \<Rightarrow> loader_vars" where
  "read_chunks v f =
     (case chunk_iteration v f of Break v' \<Rightarrow> v' | Continue v' f' \<Rightarrow> read_chunks v' f')"
  by pat_completeness auto
termination
proof (relation "measure (\<lambda>(v, f). length f)")
  show "wf (measure (\<lambda>(v :: loader_vars, f :: byte list). length f))" by simp
next
  fix v :: loader_vars and f v' f'
  assume step: "chunk_iteration v f = Continue v' f'"
  obtain len type f1 where hdr: "bkp_read_chunk_header f = Some (len, type, f1)"
    using step by (auto simp: chunk_iteration_def split: option.splits)
  have f1: "length f1 < length f"
    using hdr
    by (auto simp: bkp_read_chunk_header_def bkp_read_be32_def fread_def
             split: option.splits if_splits)
  have plte: "length f2 \<le> length f1" if "bkp_read_plte f1 len p = Some (pal, f2)" for p pal f2
    using that
    by (simp add: bkp_read_plte_def bkp_read_be32_def fread_def Let_def
             split: option.splits if_splits prod.splits) auto
  have idat: "length f2 \<le> length f1" if "bkp_collect_idat_data f1 b len = (b', Some f2)"
    for b b' f2
    using that
    by (simp add: bkp_collect_idat_data_def bkp_read_be32_def fread_def
             split: option.splits if_splits prod.splits) auto
  have gama: "length f2 \<le> length f1" if "bkp_read_gama f1 len = Some (g, f2)" for g f2
    using that
    by (simp add: bkp_read_gama_def bkp_read_be32_def fread_def
             split: option.splits if_splits prod.splits) auto
  have skip: "length f2 \<le> length f1"
    if "bkp_skip_and_verify_chunk f1 len type b = (b', Some f2)" for b b' f2
    using that
    by (simp add: bkp_skip_and_verify_chunk_def bkp_read_be32_def fread_def
             split: option.splits if_splits prod.splits) auto
  have "length f' \<le> length f1"
    using step hdr plte idat gama skip
    by (auto simp: chunk_iteration_def split: option.splits if_splits prod.splits)
  with f1 show "((v', f'), (v, f)) \<in> measure (\<lambda>(v, f). length f)" by simp
qed

subsection \<open>Decoding and conversion to RGBA\<close>

definition png_signature :: "byte list" where
  "png_signature = [137, 80, 78, 71, 13, 10, 26, 10]"

text \<open>The \<^verbatim>\<open>switch\<close> on the colour type.\<close>

definition bpp_of_color_type :: "byte \<Rightarrow> nat option" where
  "bpp_of_color_type ct =
     (if ct = BK_PNG_GRAY then Some 1
      else if ct = BK_PNG_GRAY_ALPHA then Some 2
      else if ct = BK_PNG_RGB then Some 3
      else if ct = BK_PNG_INDEXED then Some 1
      else if ct = BK_PNG_RGBA then Some 4
      else None)"

text \<open>\<^verbatim>\<open>size_t expected_size = (bpp * ihdr.width + 1) * ihdr.height\<close>: the operands are an
  \<^verbatim>\<open>int\<close> and two \<^verbatim>\<open>uint32_t\<close>, so the product is computed in 32 bits and then widened.\<close>

definition expected_size :: "bkp_ihdr \<Rightarrow> nat \<Rightarrow> nat" where
  "expected_size ihdr bpp = unat ((of_nat bpp * width ihdr + 1) * height ihdr)"

text \<open>The call of the scanline decoder on \<^verbatim>\<open>filtered_pixels\<close>, a fresh buffer of
  \<^verbatim>\<open>ihdr.width * ihdr.height * bpp\<close> bytes (a 32-bit product).\<close>

definition decode_scanlines :: "bkp_ihdr \<Rightarrow> nat \<Rightarrow> byte list \<Rightarrow> byte option list option result"
  where
  "decode_scanlines ihdr bpp decompressed =
     (let filt_cap = unat (width ihdr * height ihdr * of_nat bpp) in
      if interlace_method ihdr = 0 then
        (case bkp_filter_decode decompressed (sint (width ihdr)) (sint (height ihdr)) bpp
                filt_cap of
           Undefined \<Rightarrow> Undefined
         | Returns None \<Rightarrow> Returns None
         | Returns (Some out) \<Rightarrow>
             Returns (Some (map Some out @ replicate (filt_cap - length out) None)))
      else if interlace_method ihdr = 1 then
        bkp_decode_adam7 decompressed (sint (width ihdr)) (sint (height ihdr)) bpp
          (replicate filt_cap None)
      else Returns None)"

text \<open>The bytes that one iteration of a conversion loop stores at
  \<^verbatim>\<open>raw_pixels[i*4+0 .. i*4+3]\<close>. The index \<open>i\<close> is a \<^verbatim>\<open>uint32_t\<close>, and so are \<^verbatim>\<open>i*2+1\<close>,
  \<^verbatim>\<open>i*3+2\<close> and \<^verbatim>\<open>i*4\<close>.\<close>

definition gray_pixel :: "byte option list \<Rightarrow> u32 \<Rightarrow> byte list result" where
  "gray_pixel filtered i =
     (case read_byte filtered (unat i) of Undefined \<Rightarrow> Undefined
      | Returns v \<Rightarrow> Returns [v, v, v, 255])"

definition gray_alpha_pixel :: "byte option list \<Rightarrow> u32 \<Rightarrow> byte list result" where
  "gray_alpha_pixel filtered i =
     (case read_byte filtered (unat (i * 2 + 0)) of Undefined \<Rightarrow> Undefined
      | Returns v \<Rightarrow>
         (case read_byte filtered (unat (i * 2 + 1)) of Undefined \<Rightarrow> Undefined
          | Returns a \<Rightarrow> Returns [v, v, v, a]))"

definition rgb_pixel :: "byte option list \<Rightarrow> u32 \<Rightarrow> byte list result" where
  "rgb_pixel filtered i =
     (case read_byte filtered (unat (i * 3 + 0)) of Undefined \<Rightarrow> Undefined
      | Returns r \<Rightarrow>
         (case read_byte filtered (unat (i * 3 + 1)) of Undefined \<Rightarrow> Undefined
          | Returns g \<Rightarrow>
             (case read_byte filtered (unat (i * 3 + 2)) of Undefined \<Rightarrow> Undefined
              | Returns b \<Rightarrow> Returns [r, g, b, 255])))"

definition pixel_loop ::
  "(u32 \<Rightarrow> byte list result) \<Rightarrow> u32 \<Rightarrow> byte option list \<Rightarrow> byte option list result" where
  "pixel_loop pixel n raw_pixels =
     for_loop (unat n)
       (\<lambda>i raw. case pixel (of_nat i) of Undefined \<Rightarrow> Undefined
          | Returns bs \<Rightarrow> write_bytes raw (unat (of_nat i * 4 :: u32)) bs)
       raw_pixels"

text \<open>\<^verbatim>\<open>memcpy(raw_pixels, filtered_pixels, ihdr.width * ihdr.height * 4)\<close>.\<close>

definition memcpy_pixels :: "byte option list \<Rightarrow> nat \<Rightarrow> byte option list \<Rightarrow> byte option list result"
  where
  "memcpy_pixels filtered n raw_pixels =
     (case read_bytes filtered 0 n of Undefined \<Rightarrow> Undefined
      | Returns bs \<Rightarrow> write_bytes raw_pixels 0 bs)"

text \<open>The buffer handed to the caller: all of its bytes have to be written.\<close>

definition returned_buffer :: "byte option list result \<Rightarrow> byte list option result" where
  "returned_buffer r =
     (case r of Undefined \<Rightarrow> Undefined
      | Returns raw \<Rightarrow>
         (case read_bytes raw 0 (length raw) of Undefined \<Rightarrow> Undefined
          | Returns px \<Rightarrow> Returns (Some px)))"

text \<open>The conversion to RGBA, on \<^verbatim>\<open>raw_pixels\<close>, a fresh buffer of
  \<^verbatim>\<open>ihdr.width * ihdr.height * 4\<close> bytes (a 32-bit product).\<close>

definition convert_pixels ::
  "bkp_ihdr \<Rightarrow> bool \<Rightarrow> bkp_palette \<Rightarrow> byte option list \<Rightarrow> byte list option result" where
  "convert_pixels ihdr have_plte pal filtered =
     (let n = width ihdr * height ihdr;
          raw_pixels = replicate (unat (n * 4)) None;
          ct = color_type ihdr
      in if ct = BK_PNG_INDEXED then
           (if \<not> have_plte then Returns None
            else returned_buffer (bkp_expand_palette filtered (unat n) pal raw_pixels))
         else if ct = BK_PNG_GRAY then
           returned_buffer (pixel_loop (gray_pixel filtered) n raw_pixels)
         else if ct = BK_PNG_GRAY_ALPHA then
           returned_buffer (pixel_loop (gray_alpha_pixel filtered) n raw_pixels)
         else if ct = BK_PNG_RGB then
           returned_buffer (pixel_loop (rgb_pixel filtered) n raw_pixels)
         else if ct = BK_PNG_RGBA then
           returned_buffer (memcpy_pixels filtered (unat (n * 4)) raw_pixels)
         else Returns None)"

text \<open>\<^verbatim>\<open>bkp_apply_gamma_correction\<close>. The floating-point map of one channel value,
  \<^verbatim>\<open>(unsigned char)(powf(v / 255.0f, 1.0f / gamma) * 255.0f + 0.5f)\<close>, is the parameter
  \<open>powf_channel\<close>, given the integer the gamma was read from. The loop visits the first
  three bytes of each pixel.\<close>

definition bkp_apply_gamma_correction ::
  "(u32 \<Rightarrow> byte \<Rightarrow> byte) \<Rightarrow> byte list \<Rightarrow> u32 \<Rightarrow> u32 \<Rightarrow> u32 \<Rightarrow> byte list result" where
  "bkp_apply_gamma_correction powf_channel pixels w h gamma =
     (if gamma = 0 then Returns pixels
      else for_loop (unat (w * h))
             (\<lambda>i px. let off = unat (of_nat i * 4 :: u32) in
                if length px < off + 3 then Undefined
                else Returns (take off px @ map (powf_channel gamma) (take 3 (drop off px))
                              @ drop (off + 3) px))
             pixels)"

subsection \<open>The entry point\<close>

text \<open>The caller's three output variables: \<open>None\<close> for a \<^verbatim>\<open>NULL\<close> pointer, otherwise the
  value the variable holds.\<close>

record out_params =
  out_width :: "u32 option"
  out_height :: "u32 option"
  out_color_type :: "int option"

definition store_outputs :: "bkp_ihdr \<Rightarrow> out_params \<Rightarrow> out_params" where
  "store_outputs ihdr outs =
     \<lparr> out_width = map_option (\<lambda>_. width ihdr) (out_width outs),
       out_height = map_option (\<lambda>_. height ihdr) (out_height outs),
       out_color_type = map_option (\<lambda>_. uint (color_type ihdr)) (out_color_type outs) \<rparr>"

text \<open>
  The part of \<^verbatim>\<open>bkp_load_png\<close> after \<^verbatim>\<open>fclose\<close>. \<open>zlib\<close> stands for
  \<^verbatim>\<open>bkp_decompress_zlib\<close> over the zlib library: \<open>None\<close> when it returns \<^verbatim>\<open>NULL\<close>, otherwise
  the inflated bytes. The result is the returned pointer (\<open>None\<close> for \<^verbatim>\<open>NULL\<close>, otherwise
  the pixel bytes) and the caller's output variables.
\<close>

definition decode_image ::
  "(byte list \<Rightarrow> byte list option) \<Rightarrow> (u32 \<Rightarrow> byte \<Rightarrow> byte) \<Rightarrow> bkp_ihdr \<Rightarrow> loader_vars
     \<Rightarrow> out_params \<Rightarrow> (byte list option \<times> out_params) result" where
  "decode_image zlib powf_channel ihdr v outs =
     (case var_idat_buf v of
        NullBuf \<Rightarrow> Returns (None, outs)
      | FreedBuf \<Rightarrow> Undefined
      | Buf idat \<Rightarrow>
         (case zlib idat of None \<Rightarrow> Returns (None, outs)
          | Some decompressed \<Rightarrow>
             (case bpp_of_color_type (color_type ihdr) of None \<Rightarrow> Returns (None, outs)
              | Some bpp \<Rightarrow>
                 if length decompressed < expected_size ihdr bpp then Returns (None, outs)
                 else
                  (case decode_scanlines ihdr bpp decompressed of
                     Undefined \<Rightarrow> Undefined
                   | Returns None \<Rightarrow> Returns (None, outs)
                   | Returns (Some filtered) \<Rightarrow>
                      (case convert_pixels ihdr (var_have_plte v) (var_palette v) filtered of
                         Undefined \<Rightarrow> Undefined
                       | Returns None \<Rightarrow> Returns (None, outs)
                       | Returns (Some raw_pixels) \<Rightarrow>
                          let outs' = store_outputs ihdr outs in
                          if var_gamma v \<noteq> 0 then
                            (case bkp_apply_gamma_correction powf_channel raw_pixels
                                    (width ihdr) (height ihdr) (var_gamma v) of
                               Undefined \<Rightarrow> Undefined
                             | Returns px \<Rightarrow> Returns (Some px, outs'))
                          else Returns (Some raw_pixels, outs'))))))"

text \<open>\<open>file\<close> is \<open>None\<close> when \<^verbatim>\<open>fopen\<close> fails, otherwise the bytes of the file.\<close>

definition bkp_load_png ::
  "(byte list \<Rightarrow> byte list option) \<Rightarrow> (u32 \<Rightarrow> byte \<Rightarrow> byte) \<Rightarrow> byte list option \<Rightarrow> out_params
     \<Rightarrow> (byte list option \<times> out_params) result" where
  "bkp_load_png zlib powf_channel file outs =
     (case file of None \<Rightarrow> Returns (None, outs)
      | Some f \<Rightarrow>
         (case fread 8 f of None \<Rightarrow> Returns (None, outs)
          | Some (signature_read, f1) \<Rightarrow>
             if signature_read \<noteq> png_signature then Returns (None, outs)
             else
              (case bkp_read_ihdr f1 of None \<Rightarrow> Returns (None, outs)
               | Some (ihdr, f2) \<Rightarrow>
                  decode_image zlib powf_channel ihdr (read_chunks initial_vars f2) outs)))"

section \<open>Filter application, from the specification\<close>





section \<open>Test files\<close>

text \<open>A 1 x 1 RGBA image, not interlaced: signature, IHDR, one IDAT chunk holding the
  zlib stream \<open>red_idat\<close> (a stored block with the scanline \<open>00 FF 00 00 FF\<close>), IEND. All
  CRCs are correct.\<close>

definition red_idat :: "byte list" where
  "red_idat = [120, 1, 1, 5, 0, 250, 255, 0, 255, 0, 0, 255, 5, 0, 1, 255]"

definition red_png :: "byte list" where
  "red_png =
     [137, 80, 78, 71, 13, 10, 26, 10,
      0, 0, 0, 13, 73, 72, 68, 82, 0, 0, 0, 1, 0, 0, 0, 1, 8, 6, 0, 0, 0, 31, 21, 196, 137,
      0, 0, 0, 16, 73, 68, 65, 84, 120, 1, 1, 5, 0, 250, 255, 0, 255, 0, 0, 255, 5, 0, 1, 255,
      250, 92, 136, 209,
      0, 0, 0, 0, 73, 69, 78, 68, 174, 66, 96, 130]"

text \<open>The same image with interlace method 1 in IHDR (and the CRC of that IHDR). For a
  1 x 1 image the Adam7 stream is the same as the plain one: only the first pass has a
  pixel.\<close>

definition adam7_png :: "byte list" where
  "adam7_png =
     [137, 80, 78, 71, 13, 10, 26, 10,
      0, 0, 0, 13, 73, 72, 68, 82, 0, 0, 0, 1, 0, 0, 0, 1, 8, 6, 0, 0, 1, 104, 18, 244, 31,
      0, 0, 0, 16, 73, 68, 65, 84, 120, 1, 1, 5, 0, 250, 255, 0, 255, 0, 0, 255, 5, 0, 1, 255,
      250, 92, 136, 209,
      0, 0, 0, 0, 73, 69, 78, 68, 174, 66, 96, 130]"

text \<open>The file of \<open>red_png\<close> with an empty \<^verbatim>\<open>tEXt\<close> chunk between IDAT and IEND whose
  stored CRC, \<open>96 42 C5 84\<close>, differs from the CRC of the chunk in its last bit.\<close>

definition bad_crc_png :: "byte list" where
  "bad_crc_png =
     [137, 80, 78, 71, 13, 10, 26, 10,
      0, 0, 0, 13, 73, 72, 68, 82, 0, 0, 0, 1, 0, 0, 0, 1, 8, 6, 0, 0, 0, 31, 21, 196, 137,
      0, 0, 0, 16, 73, 68, 65, 84, 120, 1, 1, 5, 0, 250, 255, 0, 255, 0, 0, 255, 5, 0, 1, 255,
      250, 92, 136, 209,
      0, 0, 0, 0, 116, 69, 88, 116, 150, 66, 197, 132,
      0, 0, 0, 0, 73, 69, 78, 68, 174, 66, 96, 130]"

text \<open>Files built from their parts: a chunk with its length and its correct CRC, the 13
  bytes of an IHDR of bit depth 8, and a file of signature, IHDR, one IDAT chunk and
  IEND.\<close>

definition be32_bytes :: "u32 \<Rightarrow> byte list" where
  "be32_bytes x = [ucast (drop_bit 24 x), ucast (drop_bit 16 x), ucast (drop_bit 8 x), ucast x]"

definition png_chunk :: "byte list \<Rightarrow> byte list \<Rightarrow> byte list" where
  "png_chunk type data =
     be32_bytes (of_nat (length data)) @ type @ data @ be32_bytes (bkp_crc32 0 (type @ data))"

definition ihdr_data :: "u32 \<Rightarrow> u32 \<Rightarrow> byte \<Rightarrow> byte \<Rightarrow> byte list" where
  "ihdr_data w h ct il = be32_bytes w @ be32_bytes h @ [8, ct, 0, 0, il]"

definition png_file :: "u32 \<Rightarrow> u32 \<Rightarrow> byte \<Rightarrow> byte list \<Rightarrow> byte list" where
  "png_file w h ct idat =
     png_signature @ png_chunk type_IHDR (ihdr_data w h ct 0) @ png_chunk type_IDAT idat
       @ png_chunk type_IEND []"

text \<open>An inflater that knows the stream of the test files, a channel map for gamma, and
  caller variables holding 7.\<close>

definition test_zlib :: "byte list \<Rightarrow> byte list option" where
  "test_zlib d = (if d = red_idat then Some [0, 255, 0, 0, 255] else None)"

text \<open>The zlib stream that deflate (level 9) produces for 65536 zero bytes, an inflater
  that knows it, and an inflater that yields \<open>2^31\<close> zero bytes (a stream for them has
  about two million bytes and is not spelled out).\<close>

definition zeros_idat :: "byte list" where
  "zeros_idat =
     [120, 218, 237, 193, 1, 1, 0, 0, 0, 128, 144, 254, 175, 238, 8, 10]
     @ replicate 63 0 @ [106, 0, 15, 0, 1]"

definition zeros_zlib :: "byte list \<Rightarrow> byte list option" where
  "zeros_zlib d = (if d = zeros_idat then Some (replicate 65536 0) else None)"

definition bomb_zlib :: "byte list \<Rightarrow> byte list option" where
  "bomb_zlib d = Some (replicate 2147483648 0)"

text \<open>An indexed file of 2 x 1 pixels: a PLTE chunk with the two entries red and green,
  and one IDAT chunk holding a zlib stream (one stored block) of the scanline
  \<open>[0, 1, 7]\<close>, filter 0 and the indices 1 and 7; an inflater that knows the stream.\<close>

definition indexed_idat :: "byte list" where
  "indexed_idat = [120, 1, 1, 3, 0, 252, 255, 0, 1, 7, 0, 12, 0, 9]"

definition indexed_png :: "byte list" where
  "indexed_png =
     png_signature @ png_chunk type_IHDR (ihdr_data 2 1 BK_PNG_INDEXED 0)
       @ png_chunk type_PLTE [255, 0, 0, 0, 255, 0] @ png_chunk type_IDAT indexed_idat
       @ png_chunk type_IEND []"

definition indexed_zlib :: "byte list \<Rightarrow> byte list option" where
  "indexed_zlib d = (if d = indexed_idat then Some [0, 1, 7] else None)"

definition test_powf :: "u32 \<Rightarrow> byte \<Rightarrow> byte" where
  "test_powf g v = v"

definition test_outs :: out_params where
  "test_outs = \<lparr> out_width = Some 7, out_height = Some 7, out_color_type = Some 7 \<rparr>"

section \<open>Properties\<close>

declare read_chunks.simps [simp del]

subsection \<open>Evaluation on the test files\<close>

lemma crc_table_unfold:
  "crc_table i =
     crc_round (crc_round (crc_round (crc_round (crc_round (crc_round (crc_round (crc_round
       i)))))))"
  by (simp add: crc_table_def eval_nat_numeral)

lemmas crc_eval = bkp_crc32_def crc_update_def crc_table_unfold crc_round_def mask_eq_exp_minus_1

lemma crc_ihdr_red:
  "bkp_crc32 0 [73, 72, 68, 82, 0, 0, 0, 1, 0, 0, 0, 1, 8, 6, 0, 0, 0] = 521520265"
  by (simp add: crc_eval)

lemma crc_idat_red:
  "bkp_crc32 0 [73, 68, 65, 84, 120, 1, 1, 5, 0, 250, 255, 0, 255, 0, 0, 255, 5, 0, 1, 255]
     = 4200368337"
  by (simp add: crc_eval)

lemma crc_text_empty: "bkp_crc32 0 [116, 69, 88, 116] = 2520958341"
  by (simp add: crc_eval)

lemmas load_eval = bkp_load_png_def fread_def bkp_read_ihdr_def bkp_read_chunk_header_def
  bkp_read_be32_def be32_def type_IHDR_def type_PLTE_def type_IDAT_def type_IEND_def
  type_gAMA_def png_signature_def read_chunks.simps chunk_iteration_def
  bkp_collect_idat_data_def bkp_skip_and_verify_chunk_def initial_vars_def realloc_append_def
  free_keep_pointer_def free_and_null_def

lemmas decode_eval = decode_image_def bpp_of_color_type_def BK_PNG_GRAY_def
  BK_PNG_GRAY_ALPHA_def BK_PNG_RGB_def BK_PNG_INDEXED_def BK_PNG_RGBA_def expected_size_def
  decode_scanlines_def bkp_filter_decode_def reconstruct_row_def convert_pixels_def
  memcpy_pixels_def read_bytes_def write_bytes_def returned_buffer_def store_outputs_def
  bkp_apply_gamma_correction_def Let_def

lemma load_red_png:
  "bkp_load_png test_zlib test_powf (Some red_png) test_outs =
     Returns (Some [255, 0, 0, 255],
              \<lparr> out_width = Some 1, out_height = Some 1, out_color_type = Some 6 \<rparr>)"
  by (simp add: red_png_def load_eval crc_ihdr_red crc_idat_red decode_eval
                test_zlib_def red_idat_def test_outs_def)

subsection \<open>Files built from chunks\<close>

lemma be32_be32_bytes [simp]: "be32 (be32_bytes x) = x"
proof (rule bit_word_eqI)
  fix n :: nat
  assume "n < LENGTH(32)"
  then have n: "n < 32" by simp
  consider "n < 8" | "8 \<le> n" "n < 16" | "16 \<le> n" "n < 24" | "24 \<le> n" by linarith
  then show "bit (be32 (be32_bytes x)) n = bit x n"
  proof cases
    case 1 with n show ?thesis by (auto simp: be32_def be32_bytes_def bit_simps)
  next
    case 2 with n show ?thesis by (auto simp: be32_def be32_bytes_def bit_simps)
  next
    case 3 with n show ?thesis by (auto simp: be32_def be32_bytes_def bit_simps)
  next
    case 4 with n show ?thesis by (auto simp: be32_def be32_bytes_def bit_simps)
  qed
qed

lemma length_be32_bytes [simp]: "length (be32_bytes x) = 4"
  by (simp add: be32_bytes_def)

lemma bkp_read_be32_bytes [simp]: "bkp_read_be32 (be32_bytes x @ rest) = Some (x, rest)"
  by (simp add: bkp_read_be32_def fread_def)

lemma read_header_png_chunk:
  assumes "length type = 4"
  shows "bkp_read_chunk_header (png_chunk type data @ rest) =
           Some (of_nat (length data), type, data @ be32_bytes (bkp_crc32 0 (type @ data)) @ rest)"
  using assms by (simp add: bkp_read_chunk_header_def png_chunk_def fread_def)

lemma read_ihdr_png_chunk:
  "bkp_read_ihdr (png_chunk type_IHDR (ihdr_data w h ct 0) @ rest) =
     Some (\<lparr> width = w, height = h, bit_depth = 8, color_type = ct, compression_method = 0,
             filter_method = 0, interlace_method = 0 \<rparr>, rest)"
proof -
  have t: "length type_IHDR = 4" by (simp add: type_IHDR_def)
  have l: "length (ihdr_data w h ct 0) = 13" by (simp add: ihdr_data_def)
  show ?thesis
    unfolding bkp_read_ihdr_def read_header_png_chunk[OF t] l
    by (simp add: fread_def l ihdr_data_def nth_append Let_def)
qed

lemma chunk_iteration_idat:
  assumes "length idat < 2 ^ 32"
  shows "chunk_iteration v (png_chunk type_IDAT idat @ rest) =
           Continue (v\<lparr>var_idat_buf := realloc_append (var_idat_buf v) idat\<rparr>) rest"
proof -
  have t: "length type_IDAT = 4" by (simp add: type_IDAT_def)
  have u: "unat (of_nat (length idat) :: u32) = length idat"
    using assms by (simp add: unat_of_nat take_bit_nat_eq_self)
  have ne: "type_IDAT \<noteq> type_PLTE" by (simp add: type_IDAT_def type_PLTE_def)
  show ?thesis
    unfolding chunk_iteration_def read_header_png_chunk[OF t]
    by (simp add: ne bkp_collect_idat_data_def fread_def u)
qed

lemma chunk_iteration_iend:
  "chunk_iteration v (png_chunk type_IEND [] @ rest) = Break v"
proof -
  have t: "length type_IEND = 4" by (simp add: type_IEND_def)
  show ?thesis
    unfolding chunk_iteration_def read_header_png_chunk[OF t]
    by (simp add: type_IEND_def type_PLTE_def type_IDAT_def)
qed

lemma chunk_iteration_plte:
  assumes "length plte < 2 ^ 32" and "length plte mod 3 = 0" and "length plte div 3 \<le> 256"
  shows "chunk_iteration v (png_chunk type_PLTE plte @ rest) =
           Continue (v\<lparr>var_palette := \<lparr> palette = plte_store plte (length plte div 3)
                                                     (palette (var_palette v)),
                                        size_pal = length plte div 3 \<rparr>,
                      var_have_plte := True\<rparr>) rest"
proof -
  have t: "length type_PLTE = 4" by (simp add: type_PLTE_def)
  have u: "unat (of_nat (length plte) :: u32) = length plte"
    using assms(1) by (simp add: unat_of_nat take_bit_nat_eq_self)
  show ?thesis
    unfolding chunk_iteration_def read_header_png_chunk[OF t]
    using assms(2,3) by (simp add: bkp_read_plte_def fread_def u Let_def)
qed

lemma load_png_file:
  assumes "length idat < 2 ^ 32"
  shows "bkp_load_png zlib powf_channel (Some (png_file w h ct idat)) outs =
           decode_image zlib powf_channel
             \<lparr> width = w, height = h, bit_depth = 8, color_type = ct, compression_method = 0,
               filter_method = 0, interlace_method = 0 \<rparr>
             (initial_vars\<lparr>var_idat_buf := Buf idat\<rparr>) outs"
proof -
  have "read_chunks initial_vars (png_chunk type_IDAT idat @ png_chunk type_IEND [] @ [])
          = read_chunks (initial_vars\<lparr>var_idat_buf := Buf idat\<rparr>) (png_chunk type_IEND [] @ [])"
    by (subst read_chunks.simps)
       (simp add: chunk_iteration_idat[OF assms] initial_vars_def realloc_append_def)
  also have "\<dots> = initial_vars\<lparr>var_idat_buf := Buf idat\<rparr>"
    by (subst read_chunks.simps) (simp add: chunk_iteration_iend[of _ "[]", simplified])
  finally show ?thesis
    by (simp add: bkp_load_png_def png_file_def fread_def png_signature_def read_ihdr_png_chunk)
qed

lemma filter_rows_first:
  assumes "0 < rows"
  shows "filter_rows data stride bpp cap rows pos prev_row out =
     (if pos < 0 \<or> int (length data) \<le> pos then Undefined
      else if INT_MAX < int (length out) then Undefined
      else let ft = data ! nat pos in
        if 4 < ft then Returns None
        else if stride < 0 then
          (if ft = 0 then Undefined
           else filter_rows data stride bpp cap (rows - 1) (pos + 1 + stride) (Some []) out)
        else if int (length data) < pos + 1 + stride \<or> int cap < int (length out) + stride
          then Undefined
        else let out_row = reconstruct_row ft bpp prev_row
                             (take (nat stride) (drop (nat pos + 1) data))
             in filter_rows data stride bpp cap (rows - 1) (pos + 1 + stride) (Some out_row)
                  (out @ out_row))"
  using assms by (cases rows) (auto simp: Let_def)

subsection \<open>The header\<close>

lemma bkp_read_ihdr_Some:
  assumes "bkp_read_ihdr f = Some (ihdr, f')"
  shows "25 \<le> length f \<and> f' = drop 25 f
         \<and> bit_depth ihdr = 8 \<and> compression_method ihdr = 0 \<and> filter_method ihdr = 0
         \<and> interlace_method ihdr = 0 \<and> interlace_method ihdr = f ! 20
         \<and> color_type ihdr = f ! 17
         \<and> width ihdr = be32 (take 4 (drop 8 f)) \<and> height ihdr = be32 (take 4 (drop 12 f))"
  using assms
  by (auto simp: bkp_read_ihdr_def bkp_read_chunk_header_def bkp_read_be32_def fread_def Let_def
                 add.commute be32_def
           split: option.splits if_splits prod.splits)

text \<open>
  C1. The claim: a file whose IHDR declares interlace method 1 is accepted and decoded
  through \<^verbatim>\<open>bkp_decode_adam7\<close>. The code: \<^verbatim>\<open>bkp_read_ihdr\<close> returns 0 for every interlace
  method other than 0, so every file whose interlace byte (offset 28 of the file) is 1
  makes \<^verbatim>\<open>bkp_load_png\<close> return \<^verbatim>\<open>NULL\<close>, whatever the rest of the file holds; the
  Adam7 branch of \<^verbatim>\<open>bkp_load_png\<close> is never reached.
\<close>

theorem adam7_header_rejected:
  assumes "28 < length f" and "f ! 28 = 1"
  shows "bkp_load_png zlib powf_channel (Some f) outs = Returns (None, outs)"
proof (cases "fread 8 f")
  case None
  then show ?thesis by (simp add: bkp_load_png_def)
next
  case (Some a)
  then obtain s f1 where a: "a = (s, f1)" and f1: "f1 = drop 8 f"
    by (cases a) (auto simp: fread_def split: if_splits)
  have "bkp_read_ihdr f1 = None"
  proof (rule ccontr)
    assume "bkp_read_ihdr f1 \<noteq> None"
    then obtain ihdr f2 where "bkp_read_ihdr f1 = Some (ihdr, f2)" by auto
    from bkp_read_ihdr_Some[OF this] have "f1 ! 20 = 0" by metis
    with assms f1 show False by (simp add: add.commute)
  qed
  with Some a show ?thesis by (simp add: bkp_load_png_def)
qed

theorem adam7_header_rejected_witness:
  "28 < length adam7_png \<and> adam7_png ! 28 = 1
   \<and> bkp_load_png test_zlib test_powf (Some adam7_png) test_outs = Returns (None, test_outs)"
proof -
  have len: "28 < length adam7_png" by (simp add: adam7_png_def)
  have il: "adam7_png ! 28 = 1" by (simp add: adam7_png_def)
  show ?thesis using len il adam7_header_rejected [OF len il] by simp
qed

subsection \<open>The Paeth predictor\<close>

text \<open>
  C5. For all bytes \<open>a\<close>, \<open>b\<close>, \<open>c\<close>, \<^verbatim>\<open>bkp_paeth_predictor\<close> computes \<open>p = a + b - c\<close>,
  \<open>pa = |p - a|\<close>, \<open>pb = |p - b|\<close>, \<open>pc = |p - c|\<close> and returns \<open>a\<close> when \<open>pa \<le> pb\<close> and
  \<open>pa \<le> pc\<close>, else \<open>b\<close> when \<open>pb \<le> pc\<close>, else \<open>c\<close> (ties go to \<open>a\<close>, then \<open>b\<close>); and
  Paeth(x, x, x) = x.
\<close>

theorem paeth_predictor_spec:
  "bkp_paeth_predictor (uint a) (uint b) (uint c) =
     (let p = uint a + uint b - uint c;
          pa = \<bar>p - uint a\<bar>; pb = \<bar>p - uint b\<bar>; pc = \<bar>p - uint c\<bar>
      in if pa \<le> pb \<and> pa \<le> pc then a else if pb \<le> pc then b else c)
   \<and> bkp_paeth_predictor (uint x) (uint x) (uint x) = x"
  by (simp add: bkp_paeth_predictor_def Let_def)

theorem paeth_predictor_spec_witness:
  "bkp_paeth_predictor 10 20 20 = 10 \<and> bkp_paeth_predictor 10 20 10 = 20
   \<and> bkp_paeth_predictor 10 20 12 = 20 \<and> bkp_paeth_predictor 200 200 200 = 200"
  using paeth_predictor_spec [of 10 20 20 200] paeth_predictor_spec [of 10 20 10 200]
    paeth_predictor_spec [of 10 20 12 200]
  by simp

subsection \<open>Chunk CRCs\<close>

text \<open>
  C2. The claim: a CRC mismatch in any chunk makes \<^verbatim>\<open>bkp_load_png\<close> return failure, however
  much IDAT data came before it. The code: a mismatch ends the chunk loop, and what was
  collected until then is decoded. In \<open>bad_crc_png\<close> the \<^verbatim>\<open>tEXt\<close> chunk after IDAT (type at
  offset 65, stored CRC at offset 69) has a wrong CRC, and the image is returned.
\<close>

theorem crc_mismatch_not_fatal:
  "bkp_crc32 0 (take 4 (drop 65 bad_crc_png)) \<noteq> be32 (take 4 (drop 69 bad_crc_png))
   \<and> bkp_load_png test_zlib test_powf (Some bad_crc_png) test_outs =
       Returns (Some [255, 0, 0, 255],
                \<lparr> out_width = Some 1, out_height = Some 1, out_color_type = Some 6 \<rparr>)"
  by (simp add: bad_crc_png_def load_eval crc_ihdr_red crc_idat_red crc_text_empty decode_eval
                test_zlib_def red_idat_def test_outs_def)

subsection \<open>Sizes\<close>

text \<open>Without wrap-around the 32-bit product is the size the comment in the source
  names, \<open>(width * bpp + 1) * height\<close>.\<close>

lemma expected_size_no_wrap:
  assumes "(bpp * unat (width ihdr) + 1) * unat (height ihdr) < 2 ^ 32"
  shows "expected_size ihdr bpp = unat (height ihdr) * (1 + unat (width ihdr) * bpp)"
proof -
  have "expected_size ihdr bpp
          = ((bpp * unat (width ihdr) + 1) * unat (height ihdr)) mod 2 ^ 32"
    unfolding expected_size_def
    by (simp add: unat_word_ariths unat_of_nat mod_simps)
  with assms show ?thesis by (simp add: mult.commute)
qed

text \<open>
  C6. The claim: in the non-interlaced path decoding fails if the inflated stream holds
  fewer than \<open>height * (1 + width * bpp)\<close> bytes. The code computes that size in 32 bits.
  For a 65536 x 65536 grayscale image it is \<open>65536\<close> instead of \<open>65536 * 65537\<close>: an
  inflated stream of 65536 bytes or more passes the test, both buffers are allocated
  with 0 bytes (\<open>65536 * 65536\<close> wraps to 0), and the first scanline is read past the
  stream or written past the buffer.
\<close>

theorem size_check_wraps:
  assumes "length idat < 2 ^ 32" and "zlib idat = Some d"
    and "65536 \<le> length d" and "length d < 65536 * (1 + 65536 * 1)" and "d ! 0 \<le> 4"
  shows "bkp_load_png zlib powf_channel (Some (png_file 65536 65536 BK_PNG_GRAY idat)) outs
           = Undefined"
proof -
  have "filter_rows d 65536 1 0 65536 0 None [] = Undefined"
    using assms(3,5) by (subst filter_rows_first) (auto simp: Let_def not_less)
  then show ?thesis
    using assms(2,3)
    by (simp add: load_png_file[OF assms(1)] decode_image_def initial_vars_def
                  bpp_of_color_type_def BK_PNG_GRAY_def expected_size_def decode_scanlines_def
                  bkp_filter_decode_def)
qed

theorem size_check_wraps_witness:
  "length zeros_idat < 2 ^ 32 \<and> zeros_zlib zeros_idat = Some (replicate 65536 0)
   \<and> 65536 \<le> length (replicate 65536 (0 :: byte))
   \<and> length (replicate 65536 (0 :: byte)) < 65536 * (1 + 65536 * 1)
   \<and> replicate 65536 (0 :: byte) ! 0 \<le> 4
   \<and> bkp_load_png zeros_zlib test_powf (Some (png_file 65536 65536 BK_PNG_GRAY zeros_idat))
         test_outs = Undefined"
proof -
  have 1: "length zeros_idat < 2 ^ 32" by (simp add: zeros_idat_def)
  have 2: "zeros_zlib zeros_idat = Some (replicate 65536 0)" by (simp add: zeros_zlib_def)
  have 3: "65536 \<le> length (replicate 65536 (0 :: byte))" by simp
  have 4: "length (replicate 65536 (0 :: byte)) < 65536 * (1 + 65536 * 1)" by simp
  have 5: "replicate 65536 (0 :: byte) ! 0 \<le> 4" by simp
  show ?thesis using 1 2 3 4 5 size_check_wraps [where idat = zeros_idat and zlib = zeros_zlib, OF 1 2 3 4 5]
    by simp
qed

text \<open>
  C4. The claim: whenever \<^verbatim>\<open>bkp_load_png\<close> succeeds, the returned buffer holds exactly
  \<open>4 * width * height\<close> bytes. The code allocates \<^verbatim>\<open>ihdr.width * ihdr.height * 4\<close> bytes, a
  32-bit product, and passes the height as an \<^verbatim>\<open>int\<close>. For a 1 x \<open>2^31\<close> RGBA image whose
  stream inflates to \<open>2^31\<close> bytes or more, the size test passes (\<open>5 * 2^31\<close> wraps to
  \<open>2^31\<close>), the row loop does not run (the height is negative as an \<^verbatim>\<open>int\<close>), 0 bytes are
  copied, and the call succeeds with a buffer of 0 bytes and the height \<open>2^31\<close>.
\<close>

theorem buffer_length_wraps:
  assumes "length idat < 2 ^ 32" and "zlib idat = Some d" and "2 ^ 31 \<le> length d"
  shows "bkp_load_png zlib powf_channel (Some (png_file 1 0x80000000 BK_PNG_RGBA idat)) outs
           = Returns (Some [], \<lparr> out_width = map_option (\<lambda>_. 1) (out_width outs),
                                  out_height = map_option (\<lambda>_. 0x80000000) (out_height outs),
                                  out_color_type = map_option (\<lambda>_. 6) (out_color_type outs) \<rparr>)"
  using assms(2,3)
  by (simp add: load_png_file[OF assms(1)] decode_image_def initial_vars_def
                bpp_of_color_type_def BK_PNG_RGBA_def BK_PNG_GRAY_def BK_PNG_GRAY_ALPHA_def
                BK_PNG_RGB_def BK_PNG_INDEXED_def expected_size_def decode_scanlines_def
                bkp_filter_decode_def convert_pixels_def memcpy_pixels_def read_bytes_def
                write_bytes_def returned_buffer_def store_outputs_def Let_def)

theorem buffer_length_wraps_witness:
  "length zeros_idat < 2 ^ 32 \<and> bomb_zlib zeros_idat = Some (replicate 2147483648 0)
   \<and> 2 ^ 31 \<le> length (replicate 2147483648 (0 :: byte))
   \<and> bkp_load_png bomb_zlib test_powf (Some (png_file 1 0x80000000 BK_PNG_RGBA zeros_idat))
         test_outs
       = Returns (Some [], \<lparr> out_width = Some 1, out_height = Some 0x80000000,
                              out_color_type = Some 6 \<rparr>)"
proof -
  have 1: "length zeros_idat < 2 ^ 32" by (simp add: zeros_idat_def)
  have 2: "bomb_zlib zeros_idat = Some (replicate 2147483648 0)" by (simp add: bomb_zlib_def)
  have 3: "2 ^ 31 \<le> length (replicate 2147483648 (0 :: byte))" by simp
  show ?thesis
    using 1 2 3 buffer_length_wraps [where idat = zeros_idat and zlib = bomb_zlib
        and powf_channel = test_powf and outs = test_outs, OF 1 2 3]
    by (simp add: test_outs_def)
qed

subsection \<open>The output variables\<close>

text \<open>
  C10. Whenever \<^verbatim>\<open>bkp_load_png\<close> returns \<^verbatim>\<open>NULL\<close>, the caller's variables behind
  \<^verbatim>\<open>out_width\<close>, \<^verbatim>\<open>out_height\<close> and \<^verbatim>\<open>out_color_type\<close> hold what they held before the call.
\<close>

theorem outputs_unwritten_on_failure:
  assumes "bkp_load_png zlib powf_channel file outs = Returns (None, outs')"
  shows "outs' = outs"
  using assms
  by (auto simp: bkp_load_png_def decode_image_def Let_def
           split: option.splits if_splits prod.splits bkp_buffer.splits result.splits)

theorem outputs_unwritten_on_failure_witness:
  "bkp_load_png test_zlib test_powf (Some (take 40 red_png)) test_outs
     = Returns (None, test_outs) \<and> test_outs = test_outs"
proof -
  have h: "bkp_load_png test_zlib test_powf (Some (take 40 red_png)) test_outs
             = Returns (None, test_outs)"
    by (simp add: red_png_def load_eval crc_ihdr_red decode_eval)
  show ?thesis using h outputs_unwritten_on_failure [OF h] by simp
qed

subsection \<open>Counted loops\<close>

lemma for_loop_0 [simp]: "for_loop 0 body s = Returns s"
  by (simp add: for_loop_def)

lemma for_loop_Suc:
  "for_loop (Suc n) body s =
     (case for_loop n body s of Undefined \<Rightarrow> Undefined | Returns s' \<Rightarrow> body n s')"
  by (simp add: for_loop_def)

lemma for_loop_Undefined_mono:
  assumes "for_loop k body s = Undefined" and "k \<le> k'"
  shows "for_loop k' body s = Undefined"
  using assms(2,1) by (induction rule: dec_induct) (simp_all add: for_loop_Suc)

lemma for_loop_prefix:
  assumes "for_loop k' body s = Returns r" and "k \<le> k'"
  shows "\<exists>r'. for_loop k body s = Returns r'"
  using assms for_loop_Undefined_mono[of k body s k'] by (cases "for_loop k body s") auto

lemma unat_times4:
  assumes "k < 2 ^ 30"
  shows "unat (of_nat k * 4 :: u32) = 4 * k"
proof -
  have "unat (of_nat k * 4 :: u32) = (k * 4) mod 2 ^ 32"
    by (simp add: unat_word_ariths unat_of_nat mod_simps)
  with assms show ?thesis by simp
qed

text \<open>A loop that stores four bytes per iteration, iteration \<open>i\<close> at offset \<open>4 * i\<close>.\<close>

lemma tile_loop_steps:
  assumes "for_loop k (\<lambda>i raw. case px i of Undefined \<Rightarrow> Undefined
             | Returns bs \<Rightarrow> write_bytes raw (off i) bs) raw0 = Returns r"
    and off: "\<And>i. i < k \<Longrightarrow> off i = 4 * i"
    and len4: "\<And>i bs. i < k \<Longrightarrow> px i = Returns bs \<Longrightarrow> length bs = 4"
  shows "4 * k \<le> length raw0 \<and> length r = length raw0
         \<and> (\<forall>i<k. \<exists>bs. px i = Returns bs \<and> take 4 (drop (4 * i) r) = map Some bs)
         \<and> drop (4 * k) r = drop (4 * k) raw0"
  using assms
proof (induction k arbitrary: r)
  case 0
  then show ?case by simp
next
  case (Suc k)
  let ?body = "\<lambda>i raw. case px i of Undefined \<Rightarrow> Undefined
             | Returns bs \<Rightarrow> write_bytes raw (off i) bs"
  from Suc.prems(1) obtain r1 where r1: "for_loop k ?body raw0 = Returns r1"
    and step: "?body k r1 = Returns r"
    by (auto simp: for_loop_Suc split: result.splits)
  have offk: "off i = 4 * i" if "i < k" for i using Suc.prems(2)[of i] that by simp
  have lenk: "length bs = 4" if "i < k" "px i = Returns bs" for i bs
    using Suc.prems(3)[of i bs] that by simp
  have "4 * k \<le> length raw0 \<and> length r1 = length raw0
         \<and> (\<forall>i<k. \<exists>bs. px i = Returns bs \<and> take 4 (drop (4 * i) r1) = map Some bs)
         \<and> drop (4 * k) r1 = drop (4 * k) raw0"
    by (rule Suc.IH[OF r1]) (auto intro: offk lenk)
  then have ih: "4 * k \<le> length raw0" "length r1 = length raw0"
    "\<forall>i<k. \<exists>bs. px i = Returns bs \<and> take 4 (drop (4 * i) r1) = map Some bs"
    "drop (4 * k) r1 = drop (4 * k) raw0"
    by simp_all
  from step Suc.prems(2)[of k] obtain bs where bs: "px k = Returns bs"
    and w: "write_bytes r1 (4 * k) bs = Returns r"
    by (auto split: result.splits)
  have lbs: "length bs = 4" using Suc.prems(3)[OF _ bs] by simp
  from w lbs have fit: "4 * k + 4 \<le> length r1"
    and r: "r = take (4 * k) r1 @ map Some bs @ drop (4 * k + 4) r1"
    by (auto simp: write_bytes_def split: if_splits)
  have "take 4 (drop (4 * i) r) = take 4 (drop (4 * i) r1)" if "i < k" for i
  proof -
    from that have "4 * i + 4 \<le> 4 * k" by simp
    then show ?thesis using fit by (simp add: r take_drop min_def)
  qed
  moreover have "take 4 (drop (4 * k) r) = map Some bs"
    using fit lbs by (simp add: r min_def)
  moreover have "drop (4 * Suc k) r = drop (4 * Suc k) raw0"
  proof -
    have "drop (4 * Suc k) r = drop (4 * k + 4) r1"
      using fit lbs by (simp add: r min_def)
    also have "\<dots> = drop 4 (drop (4 * k) r1)" by (simp add: add.commute)
    also have "\<dots> = drop (4 * Suc k) raw0" by (simp add: ih(4) add.commute)
    finally show ?thesis .
  qed
  moreover have "length r = length raw0" using fit lbs ih(2) by (simp add: r min_def)
  moreover have "4 * Suc k \<le> length raw0" using fit ih(2) by simp
  ultimately show ?case using ih(3) bs by (auto simp: less_Suc_eq)
qed

lemma pixel_loop_Returns:
  assumes "pixel_loop pixel n (replicate (unat (n * 4)) None) = Returns r"
    and len4: "\<And>i bs. pixel i = Returns bs \<Longrightarrow> length bs = 4"
  shows "unat n < 2 ^ 30 \<and> length r = 4 * unat n
         \<and> (\<forall>i<unat n. \<exists>bs. pixel (of_nat i) = Returns bs
                \<and> take 4 (drop (4 * i) r) = map Some bs)"
proof -
  let ?body = "\<lambda>i raw. case pixel (of_nat i) of Undefined \<Rightarrow> Undefined
             | Returns bs \<Rightarrow> write_bytes raw (unat (of_nat i * 4 :: u32)) bs"
  let ?raw0 = "replicate (unat (n * 4)) (None :: byte option)"
  from assms(1) have run: "for_loop (unat n) ?body ?raw0 = Returns r"
    by (simp add: pixel_loop_def)
  have small: "unat n < 2 ^ 30"
  proof (rule ccontr)
    assume "\<not> unat n < 2 ^ 30"
    then have le: "(2 :: nat) ^ 30 \<le> unat n" by simp
    from for_loop_prefix[OF run le] obtain r' where
      "for_loop (2 ^ 30) ?body ?raw0 = Returns r'" by blast
    from tile_loop_steps[where px = "\<lambda>i. pixel (of_nat i)"
        and off = "\<lambda>i. unat (of_nat i * 4 :: u32)", OF this unat_times4] len4
    have "4 * 2 ^ 30 \<le> length ?raw0" by simp
    moreover have "unat (n * 4) < 2 ^ 32" using unsigned_less[of "n * 4"] by simp
    ultimately show False by simp
  qed
  have "unat (n * 4) = 4 * unat n"
    using unat_times4[OF small] by simp
  moreover have "\<And>i. i < unat n \<Longrightarrow> unat (of_nat i * 4 :: u32) = 4 * i"
    using small by (intro unat_times4) simp
  ultimately show ?thesis
    using tile_loop_steps[where px = "\<lambda>i. pixel (of_nat i)"
        and off = "\<lambda>i. unat (of_nat i * 4 :: u32)", OF run] len4 small
    by simp
qed


subsection \<open>The conversions to RGBA\<close>

lemma unat_byte_less: "unat (v :: byte) < 256"
proof -
  have "unat v < 2 ^ LENGTH(8)" by (rule unsigned_less)
  then show ?thesis by simp
qed

lemma map_Some_the:
  assumes "None \<notin> set xs"
  shows "map Some (map the xs) = xs"
  using assms by (induction xs) auto

lemma returned_buffer_Returns:
  assumes "returned_buffer x = Returns (Some px)"
  shows "x = Returns (map Some px)"
proof -
  from assms obtain raw where x: "x = Returns raw"
    and rd: "read_bytes raw 0 (length raw) = Returns px"
    by (auto simp: returned_buffer_def split: result.splits)
  from rd have "None \<notin> set raw" and px: "px = map the raw"
    by (auto simp: read_bytes_def split: if_splits)
  then have "map Some px = raw"
    using map_Some_the[of raw] by simp
  with x show ?thesis by simp
qed

lemma gray_pixel_Returns:
  assumes "gray_pixel filtered i = Returns bs"
  shows "length bs = 4 \<and> bs ! 3 = 255"
  using assms by (auto simp: gray_pixel_def split: result.splits)

lemma rgb_pixel_Returns:
  assumes "rgb_pixel filtered i = Returns bs"
  shows "length bs = 4 \<and> bs ! 3 = 255"
  using assms by (auto simp: rgb_pixel_def split: result.splits)

lemma gray_alpha_pixel_Returns:
  assumes "gray_alpha_pixel filtered i = Returns bs"
  shows "length bs = 4 \<and> unat (i * 2 + 1) < length filtered
         \<and> filtered ! unat (i * 2 + 1) = Some (bs ! 3)"
  using assms
  by (auto simp: gray_alpha_pixel_def read_byte_def split: result.splits if_splits option.splits)

lemma memcpy_pixels_Returns:
  assumes "memcpy_pixels filtered m (replicate m None) = Returns r"
  shows "m \<le> length filtered \<and> r = take m filtered"
proof -
  from assms obtain bs where rd: "read_bytes filtered 0 m = Returns bs"
    and w: "write_bytes (replicate m None) 0 bs = Returns r"
    by (auto simp: memcpy_pixels_def split: result.splits)
  from rd have m: "m \<le> length filtered" and nn: "None \<notin> set (take m filtered)"
    and bs: "bs = map the (take m filtered)"
    by (auto simp: read_bytes_def split: if_splits)
  from nn have "map Some (map the (take m filtered)) = take m filtered"
    by (rule map_Some_the)
  with w bs m show ?thesis by (auto simp: write_bytes_def split: if_splits)
qed


lemma tile_loop_runs:
  assumes px: "\<And>i. i < k \<Longrightarrow> \<exists>bs. px i = Returns bs \<and> length bs = 4"
    and off: "\<And>i. i < k \<Longrightarrow> off i = 4 * i"
    and fit: "4 * k \<le> length raw0"
  shows "\<exists>r. for_loop k (\<lambda>i raw. case px i of Undefined \<Rightarrow> Undefined
             | Returns bs \<Rightarrow> write_bytes raw (off i) bs) raw0 = Returns r"
  using assms
proof (induction k)
  case 0
  then show ?case by simp
next
  case (Suc k)
  let ?body = "\<lambda>i raw. case px i of Undefined \<Rightarrow> Undefined
             | Returns bs \<Rightarrow> write_bytes raw (off i) bs"
  from Suc obtain r1 where r1: "for_loop k ?body raw0 = Returns r1" by force
  have len4: "length bs = 4" if "i < k" "px i = Returns bs" for i bs
    using Suc.prems(1)[of i] that by auto
  have "length r1 = length raw0"
    using tile_loop_steps[OF r1] Suc.prems(2) len4 by simp
  moreover from Suc.prems(1)[of k] obtain bs where "px k = Returns bs" "length bs = 4" by auto
  ultimately show ?case
    using r1 Suc.prems(2)[of k] Suc.prems(3)
    by (simp add: for_loop_Suc write_bytes_def)
qed

text \<open>The four bytes that \<^verbatim>\<open>bkp_expand_palette\<close> stores for pixel \<open>i\<close>.\<close>

lemma expand_palette_body:
  "bkp_expand_palette indexed n pal out =
     for_loop n (\<lambda>i raw. case (case read_byte indexed i of Undefined \<Rightarrow> Undefined
                    | Returns v \<Rightarrow> Returns (take 4 (palette pal !
                         (if size_pal pal \<le> unat v then 0 else unat v)))) of
                  Undefined \<Rightarrow> Undefined
                | Returns bs \<Rightarrow> write_bytes raw (i * 4) bs) out"
  unfolding bkp_expand_palette_def
  by (rule arg_cong[where f = "\<lambda>b. for_loop n b out"])
     (auto simp: fun_eq_iff Let_def split: result.splits)

lemma expand_palette_Returns:
  assumes "bkp_expand_palette indexed n pal out = Returns r" and "wf_palette pal"
  shows "4 * n \<le> length out \<and> length r = length out
         \<and> (\<forall>i<n. \<exists>v. i < length indexed \<and> indexed ! i = Some v
                \<and> take 4 (drop (4 * i) r)
                    = map Some (palette pal ! (if size_pal pal \<le> unat v then 0 else unat v)))"
proof -
  let ?px = "\<lambda>i. case read_byte indexed i of Undefined \<Rightarrow> Undefined
                    | Returns v \<Rightarrow> Returns (take 4 (palette pal !
                         (if size_pal pal \<le> unat v then 0 else unat v)))"
  have len: "length (palette pal ! k) = 4" if "k < 256" for k
    using assms(2) that by (simp add: wf_palette_def)
  have idx: "(if size_pal pal \<le> unat v then 0 else unat v) < 256" for v :: byte
    using unat_byte_less[of v] by simp
  have len4: "length bs = 4" if "?px i = Returns bs" for i bs
    using that len[OF idx] by (auto split: result.splits)
  from assms(1) have "for_loop n (\<lambda>i raw. case ?px i of Undefined \<Rightarrow> Undefined
                | Returns bs \<Rightarrow> write_bytes raw (i * 4) bs) out = Returns r"
    by (simp add: expand_palette_body)
  from tile_loop_steps[where px = ?px and off = "\<lambda>i. i * 4", OF this] len4
  have a: "4 * n \<le> length out" "length r = length out"
    and b: "\<forall>i<n. \<exists>bs. ?px i = Returns bs \<and> take 4 (drop (4 * i) r) = map Some bs"
    by simp_all
  have "\<exists>v. i < length indexed \<and> indexed ! i = Some v
                \<and> take 4 (drop (4 * i) r)
                    = map Some (palette pal ! (if size_pal pal \<le> unat v then 0 else unat v))"
    if "i < n" for i
  proof -
    from b that obtain bs where bs: "?px i = Returns bs"
      and t: "take 4 (drop (4 * i) r) = map Some bs" by blast
    from bs obtain v where v: "read_byte indexed i = Returns v"
      and bsv: "bs = take 4 (palette pal ! (if size_pal pal \<le> unat v then 0 else unat v))"
      by (auto split: result.splits)
    from v have "i < length indexed" "indexed ! i = Some v"
      by (auto simp: read_byte_def split: if_splits option.splits)
    moreover have "bs = palette pal ! (if size_pal pal \<le> unat v then 0 else unat v)"
      using bsv len[OF idx[of v]] by simp
    ultimately show ?thesis using t by blast
  qed
  with a show ?thesis by blast
qed

lemma expand_palette_runs:
  assumes "wf_palette pal" and "4 * length idxs \<le> length out"
  shows "\<exists>r. bkp_expand_palette (map Some idxs) (length idxs) pal out = Returns r"
proof -
  let ?px = "\<lambda>i. case read_byte (map Some idxs) i of Undefined \<Rightarrow> Undefined
                    | Returns v \<Rightarrow> Returns (take 4 (palette pal !
                         (if size_pal pal \<le> unat v then 0 else unat v)))"
  have len: "length (palette pal ! k) = 4" if "k < 256" for k
    using assms(1) that by (simp add: wf_palette_def)
  have idx: "(if size_pal pal \<le> unat v then 0 else unat v) < 256" for v :: byte
    using unat_byte_less[of v] by simp
  have "\<exists>bs. ?px i = Returns bs \<and> length bs = 4" if "i < length idxs" for i
    using that len[OF idx] by (simp add: read_byte_def)
  from tile_loop_runs[where px = ?px and off = "\<lambda>i. i * 4", OF this _ assms(2)]
  show ?thesis by (simp add: expand_palette_body)
qed

subsection \<open>Gamma correction\<close>

lemma gamma_keeps_alpha:
  assumes "bkp_apply_gamma_correction powf_channel px w h g = Returns px'"
  shows "length px' = length px \<and> (\<forall>j < length px. j mod 4 = 3 \<longrightarrow> px' ! j = px ! j)"
proof (cases "g = 0")
  case True
  with assms show ?thesis by (simp add: bkp_apply_gamma_correction_def)
next
  case False
  let ?body = "\<lambda>i px. let off = unat (of_nat i * 4 :: u32) in
                if length px < off + 3 then Undefined
                else Returns (take off px @ map (powf_channel g) (take 3 (drop off px))
                              @ drop (off + 3) px)"
  have step: "length q' = length q \<and> (\<forall>j < length q. j mod 4 = 3 \<longrightarrow> q' ! j = q ! j)"
    if "?body i q = Returns q'" for i q q'
  proof -
    define off where "off = unat (of_nat i * 4 :: u32)"
    have "4 dvd off"
    proof -
      have "off = (i * 4) mod 2 ^ 32"
        by (simp add: off_def unat_word_ariths unat_of_nat mod_simps)
      moreover have "(4 :: nat) dvd 2 ^ 32" by simp
      ultimately show ?thesis by (simp add: dvd_mod_iff)
    qed
    then have off4: "off mod 4 = 0" by simp
    define A where "A = take off q"
    define B where "B = map (powf_channel g) (take 3 (drop off q))"
    define C where "C = drop (off + 3) q"
    from that have fit: "off + 3 \<le> length q" and q': "q' = A @ B @ C"
      by (auto simp: Let_def off_def A_def B_def C_def split: if_splits)
    have lA: "length A = off" and lB: "length B = 3" and lC: "length C = length q - (off + 3)"
      using fit by (simp_all add: A_def B_def C_def)
    have "q' ! j = q ! j" if "j < length q" "j mod 4 = 3" for j
    proof -
      consider "j < off" | "off + 3 \<le> j" | "off \<le> j" "j < off + 3" by linarith
      then show ?thesis
      proof cases
        case 1
        then show ?thesis using fit by (simp add: q' nth_append lA A_def)
      next
        case 2
        then have "\<not> j < off" "\<not> j - off < 3" "j - off - 3 = j - (off + 3)"
          by simp_all
        then have "q' ! j = C ! (j - (off + 3))"
          by (simp add: q' nth_append lA lB)
        then show ?thesis using 2 fit that(1) by (simp add: C_def)
      next
        case 3
        from \<open>4 dvd off\<close> obtain m where m: "off = 4 * m" by (rule dvdE)
        have "j = 4 * m + (j - off)" using 3 m by simp
        then have "j mod 4 = (j - off) mod 4" by (metis mod_mult_self4)
        also have "\<dots> = j - off" using 3 by simp
        finally have "j mod 4 < 3" using 3 by simp
        with that(2) show ?thesis by simp
      qed
    qed
    moreover have "length q' = length q" using fit by (simp add: q' lA lB lC)
    ultimately show ?thesis by blast
  qed
  have loop: "length r = length px \<and> (\<forall>j < length px. j mod 4 = 3 \<longrightarrow> r ! j = px ! j)"
    if "for_loop k ?body px = Returns r" for k r
    using that
  proof (induction k arbitrary: r)
    case 0
    then show ?case by simp
  next
    case (Suc k)
    from Suc.prems obtain r1 where r1: "for_loop k ?body px = Returns r1"
      and s: "?body k r1 = Returns r"
      by (auto simp: for_loop_Suc split: result.splits)
    from Suc.IH[OF r1] have a: "length r1 = length px"
      and b: "\<forall>j < length px. j mod 4 = 3 \<longrightarrow> r1 ! j = px ! j" by blast+
    from step[OF s] have c: "length r = length r1"
      and d: "\<forall>j < length r1. j mod 4 = 3 \<longrightarrow> r ! j = r1 ! j" by blast+
    from a b c d show ?case by simp
  qed
  from assms False have "for_loop (unat (w * h)) ?body px = Returns px'"
    by (simp add: bkp_apply_gamma_correction_def)
  then show ?thesis by (rule loop)
qed

subsection \<open>The palette after the chunk loop\<close>

lemma plte_store_length [simp]: "length (plte_store data n pal) = length pal"
  unfolding plte_store_def by (induction n) simp_all

lemma plte_store_nth:
  assumes "k < length pal"
  shows "plte_store data n pal ! k =
           (if k < n then [data ! (k * 3 + 0), data ! (k * 3 + 1), data ! (k * 3 + 2), 255]
            else pal ! k)"
  using assms
proof (induction n)
  case 0
  then show ?case by (simp add: plte_store_def)
next
  case (Suc n)
  have "plte_store data (Suc n) pal =
          (plte_store data n pal)
            [n := [data ! (n * 3 + 0), data ! (n * 3 + 1), data ! (n * 3 + 2), 255]]"
    by (simp add: plte_store_def)
  with Suc show ?case by (auto simp: nth_list_update less_Suc_eq)
qed

lemma wf_palette_initial: "wf_palette (var_palette initial_vars)"
  by (simp add: wf_palette_def initial_vars_def)

lemma bkp_read_plte_wf:
  assumes "bkp_read_plte f len pal = Some (pal', f')" and "wf_palette pal"
  shows "wf_palette pal'"
proof -
  from assms(1) obtain data where n: "unat len div 3 \<le> 256"
    and pal': "pal' = \<lparr> palette = plte_store data (unat len div 3) (palette pal),
                        size_pal = unat len div 3 \<rparr>"
    by (auto simp: bkp_read_plte_def Let_def split: if_splits option.splits prod.splits)
  from assms(2) have l: "length (palette pal) = 256"
    and e: "\<And>k. k < 256 \<Longrightarrow> length (palette pal ! k) = 4"
    by (auto simp: wf_palette_def)
  have "length (plte_store data (unat len div 3) (palette pal) ! k) = 4" if "k < 256" for k
    using that l e by (simp add: plte_store_nth)
  then have "\<forall>e \<in> set (plte_store data (unat len div 3) (palette pal)). length e = 4"
    using l by (auto simp: in_set_conv_nth)
  moreover have "k < 256 \<and> plte_store data (unat len div 3) (palette pal) ! k ! 3 = 255"
    if "k < unat len div 3" for k
    using that n l by (simp add: plte_store_nth)
  ultimately show ?thesis using l by (simp add: wf_palette_def pal')
qed

lemma chunk_iteration_wf:
  assumes "wf_palette (var_palette v)"
  shows "case chunk_iteration v f of Continue v' f' \<Rightarrow> wf_palette (var_palette v')
         | Break v' \<Rightarrow> wf_palette (var_palette v')"
  using assms bkp_read_plte_wf
  by (auto simp: chunk_iteration_def split: option.splits prod.splits if_splits)

lemma read_chunks_wf:
  assumes "wf_palette (var_palette v)"
  shows "wf_palette (var_palette (read_chunks v f))"
  using assms
proof (induction v f rule: read_chunks.induct)
  case (1 v f)
  show ?case
  proof (cases "chunk_iteration v f")
    case (Continue v' f')
    with chunk_iteration_wf[OF "1.prems", of f] have "wf_palette (var_palette v')" by simp
    from "1.IH"[OF Continue this] Continue show ?thesis
      by (subst read_chunks.simps) simp
  next
    case (Break v')
    with chunk_iteration_wf[OF "1.prems", of f] show ?thesis
      by (subst read_chunks.simps) simp
  qed
qed

subsection \<open>A successful call\<close>

lemma bkp_load_png_Some:
  assumes "bkp_load_png zlib powf_channel (Some f) outs = Returns (Some px, outs')"
  shows "\<exists>ihdr idat d bpp filtered raw.
           bkp_read_ihdr (drop 8 f) = Some (ihdr, drop 33 f)
         \<and> var_idat_buf (read_chunks initial_vars (drop 33 f)) = Buf idat
         \<and> zlib idat = Some d
         \<and> bpp_of_color_type (color_type ihdr) = Some bpp
         \<and> expected_size ihdr bpp \<le> length d
         \<and> decode_scanlines ihdr bpp d = Returns (Some filtered)
         \<and> convert_pixels ihdr (var_have_plte (read_chunks initial_vars (drop 33 f)))
               (var_palette (read_chunks initial_vars (drop 33 f))) filtered = Returns (Some raw)
         \<and> bkp_apply_gamma_correction powf_channel raw (width ihdr) (height ihdr)
               (var_gamma (read_chunks initial_vars (drop 33 f))) = Returns px
         \<and> outs' = store_outputs ihdr outs"
proof -
  from assms obtain ihdr f2 where ih: "bkp_read_ihdr (drop 8 f) = Some (ihdr, f2)"
    and dec: "decode_image zlib powf_channel ihdr (read_chunks initial_vars f2) outs
                = Returns (Some px, outs')"
    by (auto simp: bkp_load_png_def fread_def split: option.splits if_splits prod.splits)
  from bkp_read_ihdr_Some[OF ih] have f2: "f2 = drop 33 f" by (simp add: add.commute)
  let ?v = "read_chunks initial_vars (drop 33 f)"
  from dec f2 obtain idat where idat: "var_idat_buf ?v = Buf idat"
    by (auto simp: decode_image_def split: bkp_buffer.splits)
  from dec f2 idat obtain d where d: "zlib idat = Some d"
    by (auto simp: decode_image_def split: option.splits)
  from dec f2 idat d obtain bpp where bpp: "bpp_of_color_type (color_type ihdr) = Some bpp"
    by (auto simp: decode_image_def split: option.splits)
  from dec f2 idat d bpp have sz: "expected_size ihdr bpp \<le> length d"
    by (auto simp: decode_image_def split: if_splits)
  from dec f2 idat d bpp sz obtain filtered where
    filt: "decode_scanlines ihdr bpp d = Returns (Some filtered)"
    by (auto simp: decode_image_def split: result.splits option.splits)
  from dec f2 idat d bpp sz filt obtain raw where
    raw: "convert_pixels ihdr (var_have_plte ?v) (var_palette ?v) filtered = Returns (Some raw)"
    by (auto simp: decode_image_def split: result.splits option.splits)
  from dec f2 idat d bpp sz filt raw have
    "bkp_apply_gamma_correction powf_channel raw (width ihdr) (height ihdr) (var_gamma ?v)
       = Returns px \<and> outs' = store_outputs ihdr outs"
    by (auto simp: decode_image_def Let_def bkp_apply_gamma_correction_def
             split: result.splits if_splits)
  with ih f2 idat d bpp sz filt raw show ?thesis by blast
qed

lemma slice_nth:
  assumes "take 4 (drop (4 * i) (map Some raw)) = map Some bs" and "4 * i + 3 < length raw"
  shows "raw ! (4 * i + 3) = bs ! 3"
proof -
  from assms(1) have "map Some (take 4 (drop (4 * i) raw)) = map Some bs"
    by (simp add: take_map drop_map)
  then have "take 4 (drop (4 * i) raw) = bs"
    by (simp only: inj_map_eq_map[OF inj_Some])
  then have "bs ! 3 = take 4 (drop (4 * i) raw) ! 3" by simp
  also have "\<dots> = raw ! (4 * i + 3)" using assms(2) by simp
  finally show ?thesis by simp
qed

lemma unat_times2_plus1:
  assumes "k < 2 ^ 30"
  shows "unat (of_nat k * 2 + 1 :: u32) = 2 * k + 1"
proof -
  have "unat (of_nat k * 2 + 1 :: u32) = (k * 2 + 1) mod 2 ^ 32"
    by (simp add: unat_word_ariths unat_of_nat mod_simps)
  with assms show ?thesis by simp
qed

lemma unat_mult4_small:
  assumes "unat (n :: u32) < 2 ^ 30"
  shows "unat (n * 4) = 4 * unat n"
  using unat_times4[OF assms] by simp

lemma convert_pixels_alpha:
  assumes conv: "convert_pixels ihdr have_plte pal filtered = Returns (Some raw)"
    and wf: "wf_palette pal"
  shows "length raw = unat (width ihdr * height ihdr * 4)
       \<and> (\<forall>i. 4 * i + 3 < length raw \<longrightarrow>
            (color_type ihdr = BK_PNG_GRAY \<or> color_type ihdr = BK_PNG_RGB
               \<longrightarrow> raw ! (4 * i + 3) = 255)
          \<and> (color_type ihdr = BK_PNG_INDEXED \<and> 0 < size_pal pal \<longrightarrow> raw ! (4 * i + 3) = 255)
          \<and> (color_type ihdr = BK_PNG_GRAY_ALPHA
               \<longrightarrow> 2 * i + 1 < length filtered \<and> filtered ! (2 * i + 1) = Some (raw ! (4 * i + 3)))
          \<and> (color_type ihdr = BK_PNG_RGBA
               \<longrightarrow> 4 * i + 3 < length filtered \<and> filtered ! (4 * i + 3) = Some (raw ! (4 * i + 3))))"
proof -
  define n where "n = width ihdr * height ihdr"
  define raw0 where "raw0 = replicate (unat (n * 4)) (None :: byte option)"
  define ct where "ct = color_type ihdr"
  have cts: "BK_PNG_GRAY \<noteq> BK_PNG_INDEXED" "BK_PNG_GRAY_ALPHA \<noteq> BK_PNG_INDEXED"
    "BK_PNG_GRAY_ALPHA \<noteq> BK_PNG_GRAY" "BK_PNG_RGB \<noteq> BK_PNG_INDEXED" "BK_PNG_RGB \<noteq> BK_PNG_GRAY"
    "BK_PNG_RGB \<noteq> BK_PNG_GRAY_ALPHA" "BK_PNG_RGBA \<noteq> BK_PNG_INDEXED" "BK_PNG_RGBA \<noteq> BK_PNG_GRAY"
    "BK_PNG_RGBA \<noteq> BK_PNG_GRAY_ALPHA" "BK_PNG_RGBA \<noteq> BK_PNG_RGB"
    by (simp_all add: BK_PNG_GRAY_def BK_PNG_GRAY_ALPHA_def BK_PNG_RGB_def BK_PNG_INDEXED_def
          BK_PNG_RGBA_def)
  from conv consider
      (indexed) "ct = BK_PNG_INDEXED"
        "bkp_expand_palette filtered (unat n) pal raw0 = Returns (map Some raw)"
    | (gray) "ct = BK_PNG_GRAY" "pixel_loop (gray_pixel filtered) n raw0 = Returns (map Some raw)"
    | (ga) "ct = BK_PNG_GRAY_ALPHA"
        "pixel_loop (gray_alpha_pixel filtered) n raw0 = Returns (map Some raw)"
    | (rgb) "ct = BK_PNG_RGB" "pixel_loop (rgb_pixel filtered) n raw0 = Returns (map Some raw)"
    | (rgba) "ct = BK_PNG_RGBA"
        "memcpy_pixels filtered (unat (n * 4)) raw0 = Returns (map Some raw)"
    unfolding convert_pixels_def Let_def n_def[symmetric] raw0_def[symmetric] ct_def[symmetric]
    by (auto split: if_splits dest: returned_buffer_Returns)
  then show ?thesis
  proof cases
    case indexed
    define sel where "sel = (\<lambda>v :: byte. if size_pal pal \<le> unat v then 0 else unat v)"
    from expand_palette_Returns[OF indexed(2) wf]
    have len: "length raw = unat (n * 4)"
      and px: "\<forall>i<unat n. \<exists>v. i < length filtered \<and> filtered ! i = Some v
                \<and> take 4 (drop (4 * i) (map Some raw)) = map Some (palette pal ! sel v)"
      and fit: "4 * unat n \<le> unat (n * 4)"
      by (simp_all add: raw0_def sel_def)
    have "raw ! (4 * i + 3) = 255" if "4 * i + 3 < length raw" "0 < size_pal pal" for i
    proof -
      have "unat (n * 4) \<le> 4 * unat n"
        by (simp add: unat_word_ariths)
      with fit len that(1) have "i < unat n" by simp
      with px obtain v where
        t: "take 4 (drop (4 * i) (map Some raw)) = map Some (palette pal ! sel v)"
        by blast
      have "sel v < size_pal pal" using that(2) by (simp add: sel_def)
      with wf have "palette pal ! sel v ! 3 = 255" by (simp add: wf_palette_def)
      with slice_nth[OF t that(1)] show ?thesis by simp
    qed
    with len indexed(1) cts show ?thesis by (simp add: n_def ct_def)
  next
    case gray
    from pixel_loop_Returns[OF gray(2)[unfolded raw0_def]] gray_pixel_Returns
    have small: "unat n < 2 ^ 30" and len: "length raw = 4 * unat n"
      and px: "\<forall>i<unat n. \<exists>bs. gray_pixel filtered (of_nat i) = Returns bs
                \<and> take 4 (drop (4 * i) (map Some raw)) = map Some bs"
      by auto
    have "raw ! (4 * i + 3) = 255" if "4 * i + 3 < length raw" for i
    proof -
      from that len have "i < unat n" by simp
      with px obtain bs where bs: "gray_pixel filtered (of_nat i) = Returns bs"
        and t: "take 4 (drop (4 * i) (map Some raw)) = map Some bs" by blast
      from slice_nth[OF t that] gray_pixel_Returns[OF bs] show ?thesis by simp
    qed
    with len gray(1) cts unat_mult4_small[OF small] show ?thesis by (simp add: n_def ct_def)
  next
    case rgb
    from pixel_loop_Returns[OF rgb(2)[unfolded raw0_def]] rgb_pixel_Returns
    have small: "unat n < 2 ^ 30" and len: "length raw = 4 * unat n"
      and px: "\<forall>i<unat n. \<exists>bs. rgb_pixel filtered (of_nat i) = Returns bs
                \<and> take 4 (drop (4 * i) (map Some raw)) = map Some bs"
      by auto
    have "raw ! (4 * i + 3) = 255" if "4 * i + 3 < length raw" for i
    proof -
      from that len have "i < unat n" by simp
      with px obtain bs where bs: "rgb_pixel filtered (of_nat i) = Returns bs"
        and t: "take 4 (drop (4 * i) (map Some raw)) = map Some bs" by blast
      from slice_nth[OF t that] rgb_pixel_Returns[OF bs] show ?thesis by simp
    qed
    with len rgb(1) cts unat_mult4_small[OF small] show ?thesis by (simp add: n_def ct_def)
  next
    case ga
    from pixel_loop_Returns[OF ga(2)[unfolded raw0_def]] gray_alpha_pixel_Returns
    have small: "unat n < 2 ^ 30" and len: "length raw = 4 * unat n"
      and px: "\<forall>i<unat n. \<exists>bs. gray_alpha_pixel filtered (of_nat i) = Returns bs
                \<and> take 4 (drop (4 * i) (map Some raw)) = map Some bs"
      by auto
    have "2 * i + 1 < length filtered \<and> filtered ! (2 * i + 1) = Some (raw ! (4 * i + 3))"
      if "4 * i + 3 < length raw" for i
    proof -
      from that len have i: "i < unat n" by simp
      with px obtain bs where bs: "gray_alpha_pixel filtered (of_nat i) = Returns bs"
        and t: "take 4 (drop (4 * i) (map Some raw)) = map Some bs" by blast
      from i small have "i < 2 ^ 30" by simp
      from slice_nth[OF t that] gray_alpha_pixel_Returns[OF bs] unat_times2_plus1[OF this]
      show ?thesis by simp
    qed
    with len ga(1) cts unat_mult4_small[OF small] show ?thesis by (simp add: n_def ct_def)
  next
    case rgba
    from memcpy_pixels_Returns[OF rgba(2)[unfolded raw0_def]]
    have m: "unat (n * 4) \<le> length filtered" and r: "map Some raw = take (unat (n * 4)) filtered"
      by simp_all
    from r have len: "length raw = unat (n * 4)" using m
      by (metis length_map length_take min.absorb2)
    have "4 * i + 3 < length filtered \<and> filtered ! (4 * i + 3) = Some (raw ! (4 * i + 3))"
      if "4 * i + 3 < length raw" for i
    proof -
      from that have "map Some raw ! (4 * i + 3) = Some (raw ! (4 * i + 3))" by simp
      moreover have "take (unat (n * 4)) filtered ! (4 * i + 3) = filtered ! (4 * i + 3)"
        using that len by simp
      ultimately show ?thesis using r that len m by simp
    qed
    with len rgba(1) cts show ?thesis by (simp add: n_def ct_def)
  qed
qed

subsection \<open>Alpha and the palette\<close>

text \<open>
  C8. The claim: in every decoded image the alpha byte of a pixel is 255 if and only if
  the colour type has no alpha channel (0, 2, 3); for the types 4 and 6 the alpha sample
  is copied. As stated this fails: an RGBA or gray-alpha sample can itself be 255 (so it
  is in \<open>red_png\<close>). What holds: for the types 0 and 2 alpha is 255; for type 3 alpha is 255
  when the last PLTE chunk has at least one entry; for the types 4 and 6 alpha is the
  alpha sample of the reconstructed scanlines (byte \<open>2i+1\<close>, resp. \<open>4i+3\<close>, of pixel \<open>i\<close>).
  Gamma correction leaves alpha alone.
\<close>

theorem alpha_of_output:
  assumes "bkp_load_png zlib powf_channel (Some f) outs = Returns (Some px, outs')"
  shows "\<exists>ihdr idat d bpp filtered.
           bkp_read_ihdr (drop 8 f) = Some (ihdr, drop 33 f)
         \<and> var_idat_buf (read_chunks initial_vars (drop 33 f)) = Buf idat
         \<and> zlib idat = Some d
         \<and> bpp_of_color_type (color_type ihdr) = Some bpp
         \<and> decode_scanlines ihdr bpp d = Returns (Some filtered)
         \<and> (\<forall>i. 4 * i + 3 < length px \<longrightarrow>
              (color_type ihdr = BK_PNG_GRAY \<or> color_type ihdr = BK_PNG_RGB
                 \<longrightarrow> px ! (4 * i + 3) = 255)
            \<and> (color_type ihdr = BK_PNG_INDEXED
                 \<and> 0 < size_pal (var_palette (read_chunks initial_vars (drop 33 f)))
                 \<longrightarrow> px ! (4 * i + 3) = 255)
            \<and> (color_type ihdr = BK_PNG_GRAY_ALPHA
                 \<longrightarrow> filtered ! (2 * i + 1) = Some (px ! (4 * i + 3)))
            \<and> (color_type ihdr = BK_PNG_RGBA
                 \<longrightarrow> filtered ! (4 * i + 3) = Some (px ! (4 * i + 3))))"
proof -
  let ?v = "read_chunks initial_vars (drop 33 f)"
  from bkp_load_png_Some[OF assms] obtain ihdr idat d bpp filtered raw where
    s: "bkp_read_ihdr (drop 8 f) = Some (ihdr, drop 33 f)" "var_idat_buf ?v = Buf idat"
       "zlib idat = Some d" "bpp_of_color_type (color_type ihdr) = Some bpp"
       "decode_scanlines ihdr bpp d = Returns (Some filtered)"
    and conv: "convert_pixels ihdr (var_have_plte ?v) (var_palette ?v) filtered
                 = Returns (Some raw)"
    and gam: "bkp_apply_gamma_correction powf_channel raw (width ihdr) (height ihdr)
                 (var_gamma ?v) = Returns px"
    by blast
  have wf: "wf_palette (var_palette ?v)" by (rule read_chunks_wf[OF wf_palette_initial])
  from gamma_keeps_alpha[OF gam] have len: "length px = length raw"
    and keep: "\<And>j. j < length raw \<Longrightarrow> j mod 4 = 3 \<Longrightarrow> px ! j = raw ! j" by auto
  have a: "px ! (4 * i + 3) = raw ! (4 * i + 3)" if "4 * i + 3 < length px" for i
  proof -
    have "(4 * i + 3) mod 4 = 3" by (simp add: mod_add_left_eq[symmetric, of "4 * i" 4 3])
    with keep[of "4 * i + 3"] that len show ?thesis by simp
  qed
  from convert_pixels_alpha[OF conv wf] a len s show ?thesis
    by (intro exI[of _ ihdr] exI[of _ idat] exI[of _ d] exI[of _ bpp] exI[of _ filtered])
       simp
qed

theorem alpha_of_output_witness:
  "bkp_load_png test_zlib test_powf (Some red_png) test_outs =
     Returns (Some [255, 0, 0, 255],
              \<lparr> out_width = Some 1, out_height = Some 1, out_color_type = Some 6 \<rparr>)
   \<and> (\<exists>ihdr filtered. bkp_read_ihdr (drop 8 red_png) = Some (ihdr, drop 33 red_png)
         \<and> (color_type ihdr = BK_PNG_RGBA \<longrightarrow> filtered ! 3 = Some ([255, 0, 0, 255 :: byte] ! 3)))"
proof -
  have h: "bkp_load_png test_zlib test_powf (Some red_png) test_outs =
     Returns (Some [255, 0, 0, 255],
              \<lparr> out_width = Some 1, out_height = Some 1, out_color_type = Some 6 \<rparr>)"
    by (rule load_red_png)
  from alpha_of_output [OF h] obtain ihdr filtered where
    "bkp_read_ihdr (drop 8 red_png) = Some (ihdr, drop 33 red_png)"
    "\<forall>i. 4 * i + 3 < length [255, 0, 0, 255 :: byte] \<longrightarrow>
       (color_type ihdr = BK_PNG_RGBA
          \<longrightarrow> filtered ! (4 * i + 3) = Some ([255, 0, 0, 255 :: byte] ! (4 * i + 3)))"
    by blast
  then have "bkp_read_ihdr (drop 8 red_png) = Some (ihdr, drop 33 red_png)
      \<and> (color_type ihdr = BK_PNG_RGBA \<longrightarrow> filtered ! 3 = Some ([255, 0, 0, 255 :: byte] ! 3))"
    by (auto dest: spec[of _ 0])
  with h show ?thesis by blast
qed

text \<open>C8, the counterexample: \<open>red_png\<close> has colour type 6 (byte 25 of the file) and its
  one pixel has alpha 255.\<close>

theorem alpha_iff_counterexample:
  "bkp_load_png test_zlib test_powf (Some red_png) test_outs =
     Returns (Some [255, 0, 0, 255],
              \<lparr> out_width = Some 1, out_height = Some 1, out_color_type = Some 6 \<rparr>)
   \<and> red_png ! 25 = BK_PNG_RGBA
   \<and> \<not> ([255, 0, 0, 255 :: byte] ! 3 = 255
          \<longleftrightarrow> red_png ! 25 = BK_PNG_GRAY \<or> red_png ! 25 = BK_PNG_RGB
              \<or> red_png ! 25 = BK_PNG_INDEXED)"
  by (simp add: red_png_def load_eval crc_ihdr_red crc_idat_red decode_eval
                test_zlib_def red_idat_def test_outs_def)

subsection \<open>Filter reversal\<close>











subsection \<open>The indexed conversion\<close>

lemma length_recon_loop:
  "length (recon_loop ft bpp prev_row out_row cur) = length out_row + length cur"
  by (induction cur arbitrary: out_row) simp_all

lemma length_reconstruct_row:
  "length (reconstruct_row ft bpp prev_row cur) = length cur"
  by (simp add: reconstruct_row_def length_recon_loop)

lemma filter_rows_cap:
  assumes "filter_rows data stride bpp cap rows pos prev_row out = Returns (Some r)"
    and "length out \<le> cap"
  shows "length r \<le> cap"
  using assms
proof (induction rows arbitrary: pos prev_row out)
  case 0
  then show ?case by simp
next
  case (Suc rows)
  show ?case
  proof (cases "stride < 0")
    case True
    with Suc.prems(1) have
      "filter_rows data stride bpp cap rows (pos + 1 + stride) (Some []) out = Returns (Some r)"
      by (auto simp: Let_def split: if_splits)
    from Suc.IH[OF this Suc.prems(2)] show ?thesis .
  next
    case False
    define out_row where "out_row = reconstruct_row (data ! nat pos) bpp prev_row
                             (take (nat stride) (drop (nat pos + 1) data))"
    from False Suc.prems(1) have
      fit: "\<not> (int (length data) < pos + 1 + stride \<or> int cap < int (length out) + stride)"
      and rec: "filter_rows data stride bpp cap rows (pos + 1 + stride) (Some out_row)
                  (out @ out_row) = Returns (Some r)"
      by (auto simp: Let_def out_row_def split: if_splits)
    have "length out_row \<le> nat stride"
      by (simp add: out_row_def length_reconstruct_row)
    with fit False have "length (out @ out_row) \<le> cap" by (simp add: not_less) linarith
    from Suc.IH[OF rec this] show ?thesis .
  qed
qed


lemma decode_scanlines_written:
  assumes "decode_scanlines ihdr bpp d = Returns (Some (map Some idxs))"
    and "interlace_method ihdr = 0"
  shows "length idxs = unat (width ihdr * height ihdr * of_nat bpp)"
proof -
  define cap where "cap = unat (width ihdr * height ihdr * of_nat bpp)"
  from assms obtain out where
    fd: "bkp_filter_decode d (sint (width ihdr)) (sint (height ihdr)) bpp cap = Returns (Some out)"
    and eq: "map Some idxs = map Some out @ replicate (cap - length out) None"
    by (auto simp: decode_scanlines_def Let_def cap_def split: result.splits option.splits)
  from fd have "filter_rows d (sint (width ihdr) * int bpp) bpp cap (nat (sint (height ihdr)))
                  0 None [] = Returns (Some out)"
    by (auto simp: bkp_filter_decode_def Let_def split: if_splits)
  from filter_rows_cap[OF this] have le: "length out \<le> cap" by simp
  have "cap - length out = 0"
  proof (rule ccontr)
    assume "cap - length out \<noteq> 0"
    then have "None \<in> set (map Some out @ replicate (cap - length out) None)" by simp
    with eq have "None \<in> set (map Some idxs)" by simp
    then show False by auto
  qed
  with le have "length out = cap" by simp
  moreover from eq have "length (map Some idxs) = length (map Some out @ replicate (cap - length out) None)"
    by simp
  ultimately show ?thesis by (simp add: cap_def)
qed

text \<open>The palette loop, run forward.\<close>

lemma expand_palette_prefix:
  assumes wf: "wf_palette pal" and fit: "4 * length idxs \<le> length out" and k: "k \<le> length idxs"
  shows "bkp_expand_palette (map Some idxs) k pal out =
           Returns (map Some (concat (map (\<lambda>v. palette pal ! (if size_pal pal \<le> unat v then 0
                                                              else unat v)) (take k idxs)))
                    @ drop (4 * k) out)"
  using k
proof (induction k)
  case 0
  then show ?case by (simp add: bkp_expand_palette_def)
next
  case (Suc k)
  let ?e = "\<lambda>v :: byte. palette pal ! (if size_pal pal \<le> unat v then 0 else unat v)"
  define A where "A = map Some (concat (map ?e (take k idxs)))"
  have len: "length (?e v) = 4" for v
    using wf unat_byte_less[of v] by (auto simp: wf_palette_def)
  have lA: "length A = 4 * k"
    unfolding A_def using Suc.prems
    by (induction k) (simp_all add: take_Suc_conv_app_nth len)
  from Suc have ih: "bkp_expand_palette (map Some idxs) k pal out = Returns (A @ drop (4 * k) out)"
    by (simp add: A_def)
  have rd: "read_byte (map Some idxs) k = Returns (idxs ! k)"
    using Suc.prems by (simp add: read_byte_def)
  have wr: "write_bytes (A @ drop (4 * k) out) (k * 4) (take 4 (?e (idxs ! k)))
              = Returns (A @ map Some (?e (idxs ! k)) @ drop (4 * Suc k) out)"
    using Suc.prems fit lA len[of "idxs ! k"]
    by (simp add: write_bytes_def mult.commute add.commute)
  have "bkp_expand_palette (map Some idxs) (Suc k) pal out
          = Returns (A @ map Some (?e (idxs ! k)) @ drop (4 * Suc k) out)"
    using ih rd wr
    by (simp add: bkp_expand_palette_def for_loop_Suc Let_def)
  moreover have "map Some (concat (map ?e (take (Suc k) idxs))) = A @ map Some (?e (idxs ! k))"
    using Suc.prems by (simp add: A_def take_Suc_conv_app_nth)
  ultimately show ?case by simp
qed


lemma convert_pixels_indexed:
  assumes ct: "color_type ihdr = BK_PNG_INDEXED" and wf: "wf_palette pal"
    and n: "length idxs = unat (width ihdr * height ihdr)" and small: "length idxs < 2 ^ 30"
  shows "convert_pixels ihdr True pal (map Some idxs) =
           Returns (Some (concat (map (\<lambda>v. palette pal ! (if size_pal pal \<le> unat v then 0
                                                              else unat v)) idxs)))"
proof -
  let ?e = "\<lambda>v :: byte. palette pal ! (if size_pal pal \<le> unat v then 0 else unat v)"
  have u4: "unat (width ihdr * height ihdr * 4) = 4 * length idxs"
    using unat_mult4_small[of "width ihdr * height ihdr"] n small by simp
  have "bkp_expand_palette (map Some idxs) (length idxs) pal (replicate (4 * length idxs) None)
          = Returns (map Some (concat (map ?e idxs)))"
    using expand_palette_prefix[OF wf, of idxs "replicate (4 * length idxs) None" "length idxs"]
    by simp
  moreover have "returned_buffer (Returns (map Some xs)) = Returns (Some xs)" for xs :: "byte list"
    by (auto simp: returned_buffer_def read_bytes_def comp_def)
  ultimately show ?thesis
    using ct by (simp add: convert_pixels_def Let_def u4 n[symmetric])
qed

text \<open>The gamma loop, run forward on a buffer of whole pixels.\<close>

lemma gamma_prefix:
  assumes four: "\<forall>t \<in> set ts. length t = 4" and small: "length ts \<le> 2 ^ 30"
    and k: "k \<le> length ts"
  shows "for_loop k
           (\<lambda>i px. let off = unat (of_nat i * 4 :: u32) in
                if length px < off + 3 then Undefined
                else Returns (take off px @ map f (take 3 (drop off px)) @ drop (off + 3) px))
           (concat ts)
         = Returns (concat (map (\<lambda>t. map f (take 3 t) @ drop 3 t) (take k ts))
                    @ concat (drop k ts))"
proof -
  define body where "body = (\<lambda>i px. let off = unat (of_nat i * 4 :: u32) in
                if length px < off + 3 then Undefined
                else Returns (take off px @ map f (take 3 (drop off px)) @ drop (off + 3) px))"
  let ?g = "\<lambda>t. map f (take 3 t) @ drop 3 t"
  have lg: "length (?g x) = 4" if "x \<in> set ts" for x using four that by simp
  have lA: "length (concat (map ?g (take k ts))) = 4 * k" if "k \<le> length ts" for k
    using that
  proof (induction k)
    case 0
    then show ?case by simp
  next
    case (Suc k)
    then have "ts ! k \<in> set ts" by simp
    from lg[OF this] Suc show ?case by (simp add: take_Suc_conv_app_nth)
  qed
  have "for_loop k body (concat ts)
          = Returns (concat (map ?g (take k ts)) @ concat (drop k ts))"
    using k
  proof (induction k)
    case 0
    then show ?case by simp
  next
    case (Suc k)
    define A where "A = concat (map ?g (take k ts))"
    define t where "t = ts ! k"
    define R where "R = concat (drop (Suc k) ts)"
    have lt: "length t = 4" using four Suc.prems by (simp add: t_def)
    have lA': "length A = 4 * k" using lA[of k] Suc.prems by (simp add: A_def)
    have dk: "concat (drop k ts) = t @ R"
      using Suc.prems by (simp add: t_def R_def Cons_nth_drop_Suc[symmetric])
    have off: "unat (of_nat k * 4 :: u32) = 4 * k"
      using Suc.prems small by (intro unat_times4) simp
    from Suc have ih: "for_loop k body (concat ts) = Returns (A @ t @ R)"
      by (simp add: A_def dk)
    have d3: "drop (4 * k + 3) (A @ t @ R) = drop 3 t @ R"
      using lA' lt by simp
    have d0: "drop (4 * k) (A @ t @ R) = t @ R" "take (4 * k) (A @ t @ R) = A"
      using lA' by simp_all
    have "body k (A @ t @ R) = Returns (A @ ?g t @ R)"
      unfolding body_def Let_def off d3 d0 using lA' lt by simp
    then have "for_loop (Suc k) body (concat ts) = Returns (A @ ?g t @ R)"
      by (simp add: for_loop_Suc ih)
    moreover have "concat (map ?g (take (Suc k) ts)) = A @ ?g t"
      using Suc.prems by (simp add: A_def t_def take_Suc_conv_app_nth)
    ultimately show ?case by (simp add: R_def)
  qed
  then show ?thesis by (simp add: body_def)
qed

lemma gamma_indexed:
  assumes four: "\<forall>t \<in> set ts. length t = 4" and small: "length ts < 2 ^ 30"
    and n: "length ts = unat (w * h)"
  shows "bkp_apply_gamma_correction powf_channel (concat ts) w h g =
           Returns (concat (map (\<lambda>t. if g = 0 then t
                                      else map (powf_channel g) (take 3 t) @ drop 3 t) ts))"
proof (cases "g = 0")
  case True
  then show ?thesis by (simp add: bkp_apply_gamma_correction_def)
next
  case False
  have "length ts \<le> 2 ^ 30" using small by simp
  from gamma_prefix[OF four this, of "length ts" "powf_channel g"] False
  show ?thesis by (simp add: bkp_apply_gamma_correction_def n[symmetric])
qed

text \<open>
  C9. A file of colour type 3 whose header is accepted, whose IDAT data inflates to at
  least the expected size and whose scanlines reconstruct to the indices \<open>idxs\<close>, one per
  pixel, with fewer than \<open>2^30\<close> pixels (so that the size of the RGBA buffer does not wrap,
  see C4). If a PLTE chunk was read, \<^verbatim>\<open>bkp_load_png\<close> succeeds, whatever the indices are,
  and returns for each index the four bytes of the palette entry of that index, or of
  entry 0 when the index is at least \<^verbatim>\<open>palette.size\<close> (with the first three bytes mapped
  by the gamma correction when a gAMA chunk gave a gamma other than 0). If no PLTE chunk
  was read it returns \<^verbatim>\<open>NULL\<close> and leaves the output variables.
\<close>

theorem palette_index_clamped:
  assumes "fread 8 f = Some (png_signature, f1)"
    and "bkp_read_ihdr f1 = Some (ihdr, f2)"
    and "color_type ihdr = BK_PNG_INDEXED"
    and "read_chunks initial_vars f2 = v"
    and "var_idat_buf v = Buf idat" and "zlib idat = Some d"
    and "expected_size ihdr 1 \<le> length d"
    and "decode_scanlines ihdr 1 d = Returns (Some (map Some idxs))"
    and "length idxs < 2 ^ 30"
  shows "bkp_load_png zlib powf_channel (Some f) outs =
           (if var_have_plte v then
              Returns (Some (concat (map
                   (\<lambda>i. let e = palette (var_palette v)
                                   ! (if size_pal (var_palette v) \<le> unat i then 0 else unat i)
                        in if var_gamma v = 0 then e
                           else map (powf_channel (var_gamma v)) (take 3 e) @ drop 3 e)
                   idxs)),
                 store_outputs ihdr outs)
            else Returns (None, outs))"
proof -
  let ?pal = "var_palette v"
  let ?e = "\<lambda>i :: byte. palette ?pal ! (if size_pal ?pal \<le> unat i then 0 else unat i)"
  have wf: "wf_palette ?pal"
    using read_chunks_wf[OF wf_palette_initial, of f2] assms(4) by simp
  have il: "interlace_method ihdr = 0"
    using bkp_read_ihdr_Some[OF assms(2)] by simp
  have n: "length idxs = unat (width ihdr * height ihdr)"
    using decode_scanlines_written[OF assms(8) il] by simp
  have bpp: "bpp_of_color_type (color_type ihdr) = Some 1"
    by (simp add: assms(3) bpp_of_color_type_def BK_PNG_INDEXED_def BK_PNG_GRAY_def
                  BK_PNG_GRAY_ALPHA_def BK_PNG_RGB_def)
  have load: "bkp_load_png zlib powf_channel (Some f) outs =
                (case convert_pixels ihdr (var_have_plte v) ?pal (map Some idxs) of
                         Undefined \<Rightarrow> Undefined
                       | Returns None \<Rightarrow> Returns (None, outs)
                       | Returns (Some raw_pixels) \<Rightarrow>
                          let outs' = store_outputs ihdr outs in
                          if var_gamma v \<noteq> 0 then
                            (case bkp_apply_gamma_correction powf_channel raw_pixels
                                    (width ihdr) (height ihdr) (var_gamma v) of
                               Undefined \<Rightarrow> Undefined
                             | Returns px \<Rightarrow> Returns (Some px, outs'))
                          else Returns (Some raw_pixels, outs'))"
  proof -
    have s7: "\<not> length d < expected_size ihdr (Suc 0)" using assms(7) by simp
    have s8: "decode_scanlines ihdr (Suc 0) d = Returns (Some (map Some idxs))"
      using assms(8) by simp
    have "bkp_load_png zlib powf_channel (Some f) outs = decode_image zlib powf_channel ihdr v outs"
      by (simp add: bkp_load_png_def assms(1,2,4))
    then show ?thesis
      by (simp add: assms(5,6) decode_image_def bpp s7 s8)
  qed
  show ?thesis
  proof (cases "var_have_plte v")
    case False
    then show ?thesis by (simp add: load convert_pixels_def assms(3))
  next
    case True
    have conv: "convert_pixels ihdr True ?pal (map Some idxs)
                  = Returns (Some (concat (map ?e idxs)))"
      by (rule convert_pixels_indexed[OF assms(3) wf n assms(9)])
    have four: "\<forall>t \<in> set (map ?e idxs). length t = 4"
      using wf unat_byte_less by (auto simp: wf_palette_def)
    have g: "bkp_apply_gamma_correction powf_channel (concat (map ?e idxs)) (width ihdr)
               (height ihdr) (var_gamma v)
             = Returns (concat (map (\<lambda>t. if var_gamma v = 0 then t
                  else map (powf_channel (var_gamma v)) (take 3 t) @ drop 3 t) (map ?e idxs)))"
      using gamma_indexed[OF four, of "width ihdr" "height ihdr"] assms(9) n by simp
    show ?thesis
      using True by (simp add: load conv g Let_def comp_def)
  qed
qed

theorem palette_index_clamped_witness:
  "bkp_load_png indexed_zlib test_powf (Some indexed_png) test_outs =
     Returns (Some [0, 255, 0, 255,  255, 0, 0, 255],
              \<lparr> out_width = Some 2, out_height = Some 1, out_color_type = Some 3 \<rparr>)"
proof -
  let ?ihdr = "\<lparr> width = 2, height = 1, bit_depth = 8, color_type = BK_PNG_INDEXED,
                 compression_method = 0, filter_method = 0, interlace_method = 0 \<rparr>"
  let ?f2 = "png_chunk type_PLTE [255, 0, 0, 0, 255, 0] @ png_chunk type_IDAT indexed_idat
       @ png_chunk type_IEND []"
  let ?f1 = "png_chunk type_IHDR (ihdr_data 2 1 BK_PNG_INDEXED 0) @ ?f2"
  let ?pal = "\<lparr> palette = plte_store [255, 0, 0, 0, 255, 0] 2 (replicate 256 [0, 0, 0, 0]),
                size_pal = 2 \<rparr>"
  let ?v = "\<lparr> var_palette = ?pal, var_idat_buf = Buf indexed_idat, var_have_plte = True,
              var_gamma = 0 \<rparr>"
  have 1: "fread 8 indexed_png = Some (png_signature, ?f1)"
    by (simp add: indexed_png_def fread_def png_signature_def)
  have 2: "bkp_read_ihdr ?f1 = Some (?ihdr, ?f2)"
    by (rule read_ihdr_png_chunk)
  have 3: "color_type ?ihdr = BK_PNG_INDEXED" by simp
  have "read_chunks initial_vars ?f2
          = read_chunks (initial_vars\<lparr>var_palette := ?pal, var_have_plte := True\<rparr>)
              (png_chunk type_IDAT indexed_idat @ png_chunk type_IEND [])"
    by (subst read_chunks.simps) (simp add: chunk_iteration_plte initial_vars_def)
  also have "\<dots> = read_chunks ?v (png_chunk type_IEND [])"
    by (subst read_chunks.simps)
       (simp add: chunk_iteration_idat indexed_idat_def initial_vars_def realloc_append_def)
  also have "\<dots> = ?v"
    by (subst read_chunks.simps) (simp add: chunk_iteration_iend[of _ "[]", simplified])
  finally have 4: "read_chunks initial_vars ?f2 = ?v" .
  have 5: "var_idat_buf ?v = Buf indexed_idat" by simp
  have 6: "indexed_zlib indexed_idat = Some [0, 1, 7]" by (simp add: indexed_zlib_def)
  have 7: "expected_size ?ihdr 1 \<le> length [0, 1, 7 :: byte]" by (simp add: expected_size_def)
  have 8: "decode_scanlines ?ihdr 1 [0, 1, 7] = Returns (Some (map Some [1, 7]))"
    by (simp add: decode_scanlines_def bkp_filter_decode_def reconstruct_row_def Let_def)
  have 9: "length [1, 7 :: byte] < 2 ^ 30" by simp
  have e0: "plte_store [255, 0, 0, 0, 255, 0] 2 (replicate 256 [0, 0, 0, 0]) ! 0
              = [255, 0, 0, 255 :: byte]"
    and e1: "plte_store [255, 0, 0, 0, 255, 0] 2 (replicate 256 [0, 0, 0, 0]) ! Suc 0
              = [0, 255, 0, 255 :: byte]"
    by (simp_all add: plte_store_nth)
  show ?thesis
    using palette_index_clamped [where zlib = indexed_zlib and powf_channel = test_powf
            and outs = test_outs, OF 1 2 3 4 5 6 7 8 9]
    by (simp add: e0 e1 store_outputs_def test_outs_def BK_PNG_INDEXED_def)
qed

end
